theory Spec2Isabelle
  imports Main "HOL-Library.Word"
begin

section \<open>The document form of a static scheduling problem\<close>

text \<open>
  The SSP dialect stores a scheduling problem as an \<open>InstanceOp\<close> whose body holds
  \<open>OperatorTypeOp\<close>s and \<open>OperationOp\<close>s. The operation classes themselves are generated
  from TableGen and are not part of the sources; the records below carry exactly the
  accessors the two source files use (\<open>getOperandIdx\<close>, \<open>getSourceRef\<close>,
  \<open>getProperties\<close>, \<open>getDependencesAttr\<close>, \<open>getPropertiesAttr\<close>, \<open>getNumOperands\<close>,
  \<open>getOperands\<close>, \<open>getNumResults\<close>, \<open>getSymNameAttr\<close>, \<open>getNameAttr\<close>).

  An \<open>Operation *\<close> is named by the kind of the operation and its rank among the
  operations of that kind in the body of its instance (the order \<open>walk\<close> visits them in).
  An SSA value is a result of an operation; \<open>Backedge\<close> is the placeholder the
  \<open>BackedgeBuilder\<close> leaves where no defining operation was ever supplied.

  \<open>unsigned\<close> is a 32-bit word, \<open>int\<close> its two's-complement reading (\<open>sint\<close>).
  A null \<open>ArrayAttr\<close>, \<open>StringAttr\<close> or \<open>FlatSymbolRefAttr\<close> is \<open>None\<close>. The type
  \<open>'a\<close> is the type of encoded property values (\<open>Attribute\<close>).
\<close>

datatype OpRef = OperationRef nat | OperatorTypeRef nat

datatype Value = OpResult OpRef nat | Backedge

record 'a DependenceAttr =
  operandIdx :: "32 word"
  sourceRef :: "string option"
  depProperties :: "'a list option"

record 'a OperationOp =
  sym_name :: "string option"
  operands :: "Value list"
  numResults :: nat
  dependences :: "'a DependenceAttr list option"
  opProperties :: "'a list option"

record 'a OperatorTypeOp =
  oprName :: string
  oprProperties :: "'a list option"

datatype 'a BodyOp = OperatorTypeBodyOp "'a OperatorTypeOp" | OperationBodyOp "'a OperationOp"

record 'a InstanceOp =
  instanceName :: string
  problemName :: string
  instProperties :: "'a list option"
  body :: "'a BodyOp list"

text \<open>
  Every failure of the two source files is a value of \<open>error\<close>: the diagnostics of the
  parser and of the two verifiers, and a failed \<open>assert\<close> (with the asserted expression).
\<close>

datatype error =
    ExpectedSSAValueOrSymbolReference
  | OperandIndexOutOfBounds
  | DefUseIndicesNotIncreasing
  | AuxiliaryInterleaved string
  | AuxiliaryIndicesNotConsecutive
  | InvalidSourceOperation string
  | AssertionFailed string

definition dependenceRecords :: "'a OperationOp \<Rightarrow> 'a DependenceAttr list" where
  "dependenceRecords op = (case dependences op of None \<Rightarrow> [] | Some deps \<Rightarrow> deps)"

text \<open>
  \<open>instOp.walk\<close> with a callback for one operation class visits the operations of that
  class in the order of the body.
\<close>

definition walkOperatorTypeOps :: "'a InstanceOp \<Rightarrow> 'a OperatorTypeOp list" where
  "walkOperatorTypeOps instOp =
     List.map_filter (\<lambda>bodyOp. case bodyOp of OperatorTypeBodyOp oprOp \<Rightarrow> Some oprOp | _ \<Rightarrow> None)
       (body instOp)"

definition walkOperationOps :: "'a InstanceOp \<Rightarrow> 'a OperationOp list" where
  "walkOperationOps instOp =
     List.map_filter (\<lambda>bodyOp. case bodyOp of OperationBodyOp opOp \<Rightarrow> Some opOp | _ \<Rightarrow> None)
       (body instOp)"

definition operationOpsWithRefs :: "'a InstanceOp \<Rightarrow> (OpRef \<times> 'a OperationOp) list" where
  "operationOpsWithRefs instOp =
     zip (map OperationRef [0 ..< length (walkOperationOps instOp)]) (walkOperationOps instOp)"

text \<open>
  \<open>SymbolTable::lookupSymbolIn\<close>: the first operation of the body whose symbol name is
  the one looked up. Operator types and operations are both symbols of the instance.
\<close>

fun lookupSymbol :: "'a BodyOp list \<Rightarrow> nat \<Rightarrow> nat \<Rightarrow> string \<Rightarrow> OpRef option" where
  "lookupSymbol [] i j s = None"
| "lookupSymbol (OperatorTypeBodyOp oprOp # ops) i j s =
     (if oprName oprOp = s then Some (OperatorTypeRef i) else lookupSymbol ops (Suc i) j s)"
| "lookupSymbol (OperationBodyOp opOp # ops) i j s =
     (if sym_name opOp = Some s then Some (OperationRef j) else lookupSymbol ops i (Suc j) s)"

definition lookupSymbolIn :: "'a InstanceOp \<Rightarrow> string \<Rightarrow> OpRef option" where
  "lookupSymbolIn instOp s = lookupSymbol (body instOp) 0 0 s"

text \<open>
  What \<open>op->getOperands()\<close> and \<open>op->getNumResults()\<close> read through an \<open>Operation *\<close>.
  An operator type has no operands and no results; neither has, in this model, a
  reference that names no operation of the instance (a Problem only ever holds
  operations of the instance it was created for).
\<close>

definition getOperationOp :: "'a InstanceOp \<Rightarrow> OpRef \<Rightarrow> 'a OperationOp option" where
  "getOperationOp instOp ref =
     (case ref of
        OperationRef k \<Rightarrow>
          if k < length (walkOperationOps instOp) then Some (walkOperationOps instOp ! k) else None
      | OperatorTypeRef k \<Rightarrow> None)"

definition getOperands :: "'a InstanceOp \<Rightarrow> OpRef \<Rightarrow> Value list" where
  "getOperands instOp ref = (case getOperationOp instOp ref of Some opOp \<Rightarrow> operands opOp | None \<Rightarrow> [])"

definition getNumResults :: "'a InstanceOp \<Rightarrow> OpRef \<Rightarrow> nat" where
  "getNumResults instOp ref = (case getOperationOp instOp ref of Some opOp \<Rightarrow> numResults opOp | None \<Rightarrow> 0)"

section \<open>OperationOp::verify\<close>

text \<open>
  The loop of \<open>OperationOp::verify\<close> (SSPOps.cpp). \<open>nOperands\<close>, \<open>lastIdx\<close> and \<open>idx\<close>
  are C++ \<open>int\<close>s: 32-bit words compared through \<open>sint\<close>; \<open>lastIdx + 1\<close> is the
  machine addition.
\<close>

fun verifyLoop :: "32 word \<Rightarrow> 32 word \<Rightarrow> 'a DependenceAttr list \<Rightarrow> error + unit" where
  "verifyLoop nOperands lastIdx [] = Inr ()"
| "verifyLoop nOperands lastIdx (dep # deps) =
     (let idx = operandIdx dep in
      case sourceRef dep of
        None \<Rightarrow>
          if sint nOperands \<le> sint idx then Inl OperandIndexOutOfBounds
          else if sint idx \<le> sint lastIdx then Inl DefUseIndicesNotIncreasing
          else verifyLoop nOperands idx deps
      | Some ref \<Rightarrow>
          if sint idx < sint nOperands then Inl (AuxiliaryInterleaved ref)
          else if \<not> (idx = lastIdx + 1 \<or> (sint lastIdx < sint idx \<and> idx = nOperands))
            then Inl AuxiliaryIndicesNotConsecutive
          else verifyLoop nOperands idx deps)"

definition getNumOperands :: "'a OperationOp \<Rightarrow> 32 word" where
  "getNumOperands op = of_nat (length (operands op))"

definition verify :: "'a OperationOp \<Rightarrow> error + unit" where
  "verify op =
     (case dependences op of
        None \<Rightarrow> Inr ()
      | Some deps \<Rightarrow> verifyLoop (getNumOperands op) (- 1) deps)"

text \<open>
  \<open>Operation::getOpOperand(idx)\<close>: the operand slot \<open>idx\<close> of the operation, which exists
  only below the operand count (the comparison is between \<open>unsigned\<close> values).
\<close>

definition getOpOperand :: "'a OperationOp \<Rightarrow> 32 word \<Rightarrow> Value option" where
  "getOpOperand op idx =
     (if unat idx < length (operands op) then Some (operands op ! unat idx) else None)"

text \<open>
  The invariant of the document form in the words of the specification, on the unsigned
  values of the indices: the records without a source name come first, their indices
  strictly increasing and below the operand count; the records with a source name follow
  them, and their indices are the operand count, the operand count plus one, and so on.
\<close>

definition isDefUseAttr :: "'a DependenceAttr \<Rightarrow> bool" where
  "isDefUseAttr dep = (sourceRef dep = None)"

definition documentInvariant :: "nat \<Rightarrow> 'a DependenceAttr list \<Rightarrow> bool" where
  "documentInvariant numInputs deps =
     (let defUse = takeWhile isDefUseAttr deps;
          aux = dropWhile isDefUseAttr deps
      in sorted_wrt (<) (map (\<lambda>d. unat (operandIdx d)) defUse)
         \<and> list_all (\<lambda>dep. unat (operandIdx dep) < numInputs) defUse
         \<and> list_all (\<lambda>dep. \<not> isDefUseAttr dep) aux
         \<and> map (\<lambda>d. unat (operandIdx d)) aux = [numInputs ..< numInputs + length aux])"

text \<open>
  \<open>OperationOp::verifySymbolUses\<close> (SSPOps.cpp): \<open>lookupNearestSymbolFrom\<close> searches the
  enclosing instance; \<open>isa<OperationOp>\<close> is the test on the kind of the operation found.
\<close>

fun verifySymbolUsesLoop :: "'a InstanceOp \<Rightarrow> 'a DependenceAttr list \<Rightarrow> error + unit" where
  "verifySymbolUsesLoop instOp [] = Inr ()"
| "verifySymbolUsesLoop instOp (dep # deps) =
     (case sourceRef dep of
        None \<Rightarrow> verifySymbolUsesLoop instOp deps
      | Some ref \<Rightarrow>
          (case lookupSymbolIn instOp ref of
             Some (OperationRef k) \<Rightarrow> verifySymbolUsesLoop instOp deps
           | _ \<Rightarrow> Inl (InvalidSourceOperation ref)))"

definition verifySymbolUses :: "'a InstanceOp \<Rightarrow> 'a OperationOp \<Rightarrow> error + unit" where
  "verifySymbolUses instOp op =
     (case dependences op of
        None \<Rightarrow> Inr ()
      | Some deps \<Rightarrow> verifySymbolUsesLoop instOp deps)"

text \<open>
  A name reference resolves when the symbol lookup in the enclosing instance finds an
  operation of the expected kind, an \<open>OperationOp\<close>.
\<close>

definition resolvesToOperation :: "'a InstanceOp \<Rightarrow> string \<Rightarrow> bool" where
  "resolvesToOperation instOp ref =
     (case lookupSymbolIn instOp ref of Some (OperationRef k) \<Rightarrow> True | _ \<Rightarrow> False)"

definition resolvesOrData :: "'a InstanceOp \<Rightarrow> 'a DependenceAttr \<Rightarrow> bool" where
  "resolvesOrData instOp dep =
     (case sourceRef dep of None \<Rightarrow> True | Some ref \<Rightarrow> resolvesToOperation instOp ref)"

section \<open>OperationOp::parse: the dependence list\<close>

text \<open>
  The lambda \<open>parseDependenceSourceWithAttrDict\<close> of \<open>OperationOp::parse\<close> (SSPOps.cpp) and
  the comma-separated list it is run over. An entry of the list is what the parser's
  primitives find: a symbol reference, else an SSA operand, else neither (the error
  branch), followed by an optional property array. The state is the three variables
  the lambda captures.
\<close>

datatype DependenceSource = SymbolReference string | SSAOperand string | NoSource

record 'a ParserState =
  unresolvedOperands :: "string list"
  parsedDependences :: "'a DependenceAttr list"
  nextOperandIdx :: "32 word"

definition parseDependenceSourceWithAttrDict ::
  "DependenceSource \<times> 'a list option \<Rightarrow> 'a ParserState \<Rightarrow> error + 'a ParserState" where
  "parseDependenceSourceWithAttrDict entry st =
     (let (source, properties) = entry in
      case source of
        NoSource \<Rightarrow> Inl ExpectedSSAValueOrSymbolReference
      | _ \<Rightarrow>
         (let ref = (case source of SymbolReference s \<Rightarrow> Some s | _ \<Rightarrow> None);
              st1 = (case source of
                       SSAOperand v \<Rightarrow> st\<lparr>unresolvedOperands := unresolvedOperands st @ [v]\<rparr>
                     | _ \<Rightarrow> st);
              st2 = (if ref \<noteq> None \<or> properties \<noteq> None
                     then st1\<lparr>parsedDependences := parsedDependences st1 @
                            [\<lparr>operandIdx = nextOperandIdx st1, sourceRef = ref,
                              depProperties = properties\<rparr>]\<rparr>
                     else st1)
          in Inr (st2\<lparr>nextOperandIdx := nextOperandIdx st2 + 1\<rparr>)))"

fun parseCommaSeparatedList ::
  "(DependenceSource \<times> 'a list option) list \<Rightarrow> 'a ParserState \<Rightarrow> error + 'a ParserState" where
  "parseCommaSeparatedList [] st = Inr st"
| "parseCommaSeparatedList (entry # entries) st =
     (case parseDependenceSourceWithAttrDict entry st of
        Inl e \<Rightarrow> Inl e
      | Inr st' \<Rightarrow> parseCommaSeparatedList entries st')"

definition parseDependences ::
  "(DependenceSource \<times> 'a list option) list \<Rightarrow> error + string list \<times> 'a DependenceAttr list option" where
  "parseDependences entries =
     (case parseCommaSeparatedList entries
             \<lparr>unresolvedOperands = [], parsedDependences = [], nextOperandIdx = 0\<rparr> of
        Inl e \<Rightarrow> Inl e
      | Inr st \<Rightarrow>
          Inr (unresolvedOperands st,
               if parsedDependences st = [] then None else Some (parsedDependences st)))"

text \<open>
  The materialization rule in the words of the specification: the entry at position
  \<open>slot\<close> yields a record when it is a name reference, or when it references a data input
  and carries a property list; the record's index is the position of the entry.
\<close>

definition materializedRecord ::
  "nat \<Rightarrow> DependenceSource \<times> 'a list option \<Rightarrow> 'a DependenceAttr option" where
  "materializedRecord slot entry =
     (case entry of
        (SymbolReference s, properties) \<Rightarrow>
          Some \<lparr>operandIdx = of_nat slot, sourceRef = Some s, depProperties = properties\<rparr>
      | (SSAOperand v, Some ps) \<Rightarrow>
          Some \<lparr>operandIdx = of_nat slot, sourceRef = None, depProperties = Some ps\<rparr>
      | _ \<Rightarrow> None)"

definition materializedRecords ::
  "nat \<Rightarrow> (DependenceSource \<times> 'a list option) list \<Rightarrow> 'a DependenceAttr list" where
  "materializedRecords start entries =
     List.map_filter (\<lambda>(slot, entry). materializedRecord slot entry)
       (zip [start ..< start + length entries] entries)"

definition ssaOperands :: "(DependenceSource \<times> 'a list option) list \<Rightarrow> string list" where
  "ssaOperands entries =
     List.map_filter (\<lambda>entry. case fst entry of SSAOperand v \<Rightarrow> Some v | _ \<Rightarrow> None) entries"

section \<open>Dependences\<close>

text \<open>
  A dependence (\<open>circt::scheduling::Problem::Dependence\<close>) is either a def-use edge,
  constructed from an \<open>OpOperand *\<close> (the operation and the operand number), or an
  auxiliary edge, constructed from a source and a destination operation.
\<close>

datatype Dependence = DefUse OpRef nat | Auxiliary OpRef OpRef

section \<open>Property dispatch\<close>

text \<open>
  The property attribute classes (SSPAttributes.h) are template parameters of the
  functions of Utilities.h and are not part of the sources, so a property kind is a
  parameter here: \<open>classof\<close> is what \<open>dyn_cast\<close> tests, \<open>setInProblem\<close> and
  \<open>getFromProblem\<close> are the two members the functions call. \<open>'p\<close> is the Problem class,
  \<open>'x\<close> the attachment point (an operation, an operator type, a dependence, or nothing
  for the instance).

  \<open>llvm::TypeSwitch(prop).Case<T1, T2, ...>(fn)\<close> tries the classes from left to right
  and runs \<open>fn\<close> on the first one the value casts to; with no \<open>Default\<close> a value that
  casts to none of them is left alone.
\<close>

record ('a, 'p, 'x) PropertyKind =
  classof :: "'a \<Rightarrow> bool"
  setInProblem :: "'a \<Rightarrow> 'p \<Rightarrow> 'x \<Rightarrow> 'p"
  getFromProblem :: "'p \<Rightarrow> 'x \<Rightarrow> 'a option"

fun TypeSwitch_Case :: "('a, 'p, 'x) PropertyKind list \<Rightarrow> 'a \<Rightarrow> 'p \<Rightarrow> 'x \<Rightarrow> 'p" where
  "TypeSwitch_Case [] prop prob x = prob"
| "TypeSwitch_Case (kind # kinds) prop prob x =
     (if classof kind prop then setInProblem kind prop prob x
      else TypeSwitch_Case kinds prop prob x)"

text \<open>
  The four loaders of Utilities.h. With an empty kind list overload resolution picks the
  overload with the empty body.
\<close>

definition loadOperationProperties ::
  "('a, 'p, OpRef) PropertyKind list \<Rightarrow> 'p \<Rightarrow> OpRef \<Rightarrow> 'a list option \<Rightarrow> 'p" where
  "loadOperationProperties kinds prob op props =
     (case kinds of
        [] \<Rightarrow> prob
      | _ \<Rightarrow> (case props of
                None \<Rightarrow> prob
              | Some ps \<Rightarrow> foldl (\<lambda>p prop. TypeSwitch_Case kinds prop p op) prob ps))"

definition loadOperatorTypeProperties ::
  "('a, 'p, string) PropertyKind list \<Rightarrow> 'p \<Rightarrow> string \<Rightarrow> 'a list option \<Rightarrow> 'p" where
  "loadOperatorTypeProperties kinds prob opr props =
     (case kinds of
        [] \<Rightarrow> prob
      | _ \<Rightarrow> (case props of
                None \<Rightarrow> prob
              | Some ps \<Rightarrow> foldl (\<lambda>p prop. TypeSwitch_Case kinds prop p opr) prob ps))"

definition loadDependenceProperties ::
  "('a, 'p, Dependence) PropertyKind list \<Rightarrow> 'p \<Rightarrow> Dependence \<Rightarrow> 'a list option \<Rightarrow> 'p" where
  "loadDependenceProperties kinds prob dep props =
     (case kinds of
        [] \<Rightarrow> prob
      | _ \<Rightarrow> (case props of
                None \<Rightarrow> prob
              | Some ps \<Rightarrow> foldl (\<lambda>p prop. TypeSwitch_Case kinds prop p dep) prob ps))"

definition loadInstanceProperties ::
  "('a, 'p, unit) PropertyKind list \<Rightarrow> 'p \<Rightarrow> 'a list option \<Rightarrow> 'p" where
  "loadInstanceProperties kinds prob props =
     (case kinds of
        [] \<Rightarrow> prob
      | _ \<Rightarrow> (case props of
                None \<Rightarrow> prob
              | Some ps \<Rightarrow> foldl (\<lambda>p prop. TypeSwitch_Case kinds prop p ()) prob ps))"

text \<open>
  The four savers: the fold expression asks every kind, in the order of the list, and
  keeps the values that are present.
\<close>

definition saveOperationProperties ::
  "('a, 'p, OpRef) PropertyKind list \<Rightarrow> 'p \<Rightarrow> OpRef \<Rightarrow> 'a list option" where
  "saveOperationProperties kinds prob op =
     (let props = List.map_filter (\<lambda>kind. getFromProblem kind prob op) kinds
      in if props = [] then None else Some props)"

definition saveOperatorTypeProperties ::
  "('a, 'p, string) PropertyKind list \<Rightarrow> 'p \<Rightarrow> string \<Rightarrow> 'a list option" where
  "saveOperatorTypeProperties kinds prob opr =
     (let props = List.map_filter (\<lambda>kind. getFromProblem kind prob opr) kinds
      in if props = [] then None else Some props)"

definition saveDependenceProperties ::
  "('a, 'p, Dependence) PropertyKind list \<Rightarrow> 'p \<Rightarrow> Dependence \<Rightarrow> 'a list option" where
  "saveDependenceProperties kinds prob dep =
     (let props = List.map_filter (\<lambda>kind. getFromProblem kind prob dep) kinds
      in if props = [] then None else Some props)"

definition saveInstanceProperties ::
  "('a, 'p, unit) PropertyKind list \<Rightarrow> 'p \<Rightarrow> 'a list option" where
  "saveInstanceProperties kinds prob =
     (let props = List.map_filter (\<lambda>kind. getFromProblem kind prob ()) kinds
      in if props = [] then None else Some props)"

section \<open>The Problem\<close>

text \<open>
  Modelled from the spec: the class \<open>circt::scheduling::Problem\<close> (Problems.h is not part
  of the sources). The Problem owns the operator types, the operations (in insertion
  order), the dependences and the properties; it provides the insertion of an operator
  type, of an operation (order-preserving) and of a dependence (which fails if an
  endpoint is invalid: here, if the dependence has no source or an endpoint is not an
  operation of the Problem), and the enumeration of the operator types, the operations
  and the dependences of an operation. The data edges of an operation are implicit in
  its concrete inputs, one per operand in slot order; the auxiliary edges are those
  inserted, in insertion order, and are enumerated after the data edges. A property of
  kind \<open>k\<close> at an attachment point is a slot that holds at most one value.
  \<open>containingOp\<close> is the instance the operations of the Problem live in.
\<close>

record 'a Problem =
  containingOp :: "'a InstanceOp"
  operatorTypes :: "string list"
  operations :: "OpRef list"
  insertedDependences :: "Dependence list"
  instanceProperty :: "string \<Rightarrow> 'a option"
  operatorTypeProperty :: "string \<Rightarrow> string \<Rightarrow> 'a option"
  operationProperty :: "OpRef \<Rightarrow> string \<Rightarrow> 'a option"
  dependenceProperty :: "Dependence \<Rightarrow> string \<Rightarrow> 'a option"

definition Problem_get :: "'a InstanceOp \<Rightarrow> 'a Problem" where
  "Problem_get instOp =
     \<lparr>containingOp = instOp, operatorTypes = [], operations = [], insertedDependences = [],
      instanceProperty = (\<lambda>k. None), operatorTypeProperty = (\<lambda>opr k. None),
      operationProperty = (\<lambda>op k. None), dependenceProperty = (\<lambda>dep k. None)\<rparr>"

definition insertOperatorType :: "'a Problem \<Rightarrow> string \<Rightarrow> 'a Problem" where
  "insertOperatorType prob opr =
     (if opr \<in> set (operatorTypes prob) then prob
      else prob\<lparr>operatorTypes := operatorTypes prob @ [opr]\<rparr>)"

definition insertOperation :: "'a Problem \<Rightarrow> OpRef \<Rightarrow> 'a Problem" where
  "insertOperation prob op =
     (if op \<in> set (operations prob) then prob
      else prob\<lparr>operations := operations prob @ [op]\<rparr>)"

definition getDestination :: "Dependence \<Rightarrow> OpRef" where
  "getDestination dep = (case dep of DefUse op i \<Rightarrow> op | Auxiliary src dst \<Rightarrow> dst)"

definition isAuxiliary :: "Dependence \<Rightarrow> bool" where
  "isAuxiliary dep = (case dep of DefUse op i \<Rightarrow> False | Auxiliary src dst \<Rightarrow> True)"

definition isDefUse :: "Dependence \<Rightarrow> bool" where
  "isDefUse dep = (case dep of DefUse op i \<Rightarrow> True | Auxiliary src dst \<Rightarrow> False)"

definition getSource :: "'a InstanceOp \<Rightarrow> Dependence \<Rightarrow> OpRef option" where
  "getSource instOp dep =
     (case dep of
        Auxiliary src dst \<Rightarrow> Some src
      | DefUse op i \<Rightarrow>
          (if i < length (getOperands instOp op)
           then (case getOperands instOp op ! i of OpResult src r \<Rightarrow> Some src | Backedge \<Rightarrow> None)
           else None))"

definition insertDependence :: "'a Problem \<Rightarrow> Dependence \<Rightarrow> 'a Problem option" where
  "insertDependence prob dep =
     (case getSource (containingOp prob) dep of
        None \<Rightarrow> None
      | Some src \<Rightarrow>
          if src \<in> set (operations prob) \<and> getDestination dep \<in> set (operations prob)
          then Some (if dep \<in> set (insertedDependences prob) then prob
                     else prob\<lparr>insertedDependences := insertedDependences prob @ [dep]\<rparr>)
          else None)"

definition getDependences :: "'a Problem \<Rightarrow> OpRef \<Rightarrow> Dependence list" where
  "getDependences prob op =
     map (DefUse op) [0 ..< length (getOperands (containingOp prob) op)] @
     filter (\<lambda>dep. isAuxiliary dep \<and> getDestination dep = op) (insertedDependences prob)"

text \<open>
  Modelled from the spec: the property attribute classes (SSPAttributes.h is not part of
  the sources). A property kind has a name; an encoded value \<open>(name, v)\<close> belongs to the
  kind of that name; installing it fills the slot of that kind at the attachment
  point, and the query returns what the slot holds.
\<close>

definition InstanceProperty :: "string \<Rightarrow> (string \<times> 'v, (string \<times> 'v) Problem, unit) PropertyKind" where
  "InstanceProperty name =
     \<lparr>classof = (\<lambda>prop. fst prop = name),
      setInProblem = (\<lambda>prop prob u. prob\<lparr>instanceProperty := (instanceProperty prob)(name := Some prop)\<rparr>),
      getFromProblem = (\<lambda>prob u. instanceProperty prob name)\<rparr>"

definition OperatorTypeProperty :: "string \<Rightarrow> (string \<times> 'v, (string \<times> 'v) Problem, string) PropertyKind" where
  "OperatorTypeProperty name =
     \<lparr>classof = (\<lambda>prop. fst prop = name),
      setInProblem = (\<lambda>prop prob opr. prob\<lparr>operatorTypeProperty :=
         (operatorTypeProperty prob)(opr := (operatorTypeProperty prob opr)(name := Some prop))\<rparr>),
      getFromProblem = (\<lambda>prob opr. operatorTypeProperty prob opr name)\<rparr>"

definition OperationProperty :: "string \<Rightarrow> (string \<times> 'v, (string \<times> 'v) Problem, OpRef) PropertyKind" where
  "OperationProperty name =
     \<lparr>classof = (\<lambda>prop. fst prop = name),
      setInProblem = (\<lambda>prop prob op. prob\<lparr>operationProperty :=
         (operationProperty prob)(op := (operationProperty prob op)(name := Some prop))\<rparr>),
      getFromProblem = (\<lambda>prob op. operationProperty prob op name)\<rparr>"

definition DependenceProperty :: "string \<Rightarrow> (string \<times> 'v, (string \<times> 'v) Problem, Dependence) PropertyKind" where
  "DependenceProperty name =
     \<lparr>classof = (\<lambda>prop. fst prop = name),
      setInProblem = (\<lambda>prop prob dep. prob\<lparr>dependenceProperty :=
         (dependenceProperty prob)(dep := (dependenceProperty prob dep)(name := Some prop))\<rparr>),
      getFromProblem = (\<lambda>prob dep. dependenceProperty prob dep name)\<rparr>"

section \<open>loadProblem\<close>

text \<open>
  The body of the innermost loop of \<open>loadProblem\<close> (Utilities.h): one dependence record
  of the operation \<open>opOp\<close>, whose \<open>Operation *\<close> is \<open>opRef\<close>. The two \<open>assert\<close>s are error
  branches, and so is the operand access out of range (\<open>getOpOperand\<close> asserts the index).
\<close>

definition loadDependence ::
  "('a, 'a Problem, Dependence) PropertyKind list \<Rightarrow> 'a InstanceOp \<Rightarrow> OpRef \<Rightarrow> 'a OperationOp \<Rightarrow>
   'a Problem \<Rightarrow> 'a DependenceAttr \<Rightarrow> error + 'a Problem" where
  "loadDependence depKinds instOp opRef opOp prob depAttr =
     (case sourceRef depAttr of
        Some ref \<Rightarrow>
          (case lookupSymbolIn instOp ref of
             None \<Rightarrow> Inl (AssertionFailed ''sourceOp'')
           | Some sourceOp \<Rightarrow>
               (case insertDependence prob (Auxiliary sourceOp opRef) of
                  None \<Rightarrow> Inl (AssertionFailed ''succeeded(res)'')
                | Some prob' \<Rightarrow>
                    Inr (loadDependenceProperties depKinds prob' (Auxiliary sourceOp opRef)
                           (depProperties depAttr))))
      | None \<Rightarrow>
          (case getOpOperand opOp (operandIdx depAttr) of
             None \<Rightarrow> Inl (AssertionFailed ''Invalid index!'')
           | Some operand \<Rightarrow>
               Inr (loadDependenceProperties depKinds prob (DefUse opRef (unat (operandIdx depAttr)))
                      (depProperties depAttr))))"

fun loadDependenceAttrs ::
  "('a, 'a Problem, Dependence) PropertyKind list \<Rightarrow> 'a InstanceOp \<Rightarrow> OpRef \<Rightarrow> 'a OperationOp \<Rightarrow>
   'a DependenceAttr list \<Rightarrow> 'a Problem \<Rightarrow> error + 'a Problem" where
  "loadDependenceAttrs depKinds instOp opRef opOp [] prob = Inr prob"
| "loadDependenceAttrs depKinds instOp opRef opOp (depAttr # depAttrs) prob =
     (case loadDependence depKinds instOp opRef opOp prob depAttr of
        Inl e \<Rightarrow> Inl e
      | Inr prob' \<Rightarrow> loadDependenceAttrs depKinds instOp opRef opOp depAttrs prob')"

fun loadDependencesWalk ::
  "('a, 'a Problem, Dependence) PropertyKind list \<Rightarrow> 'a InstanceOp \<Rightarrow> (OpRef \<times> 'a OperationOp) list \<Rightarrow>
   'a Problem \<Rightarrow> error + 'a Problem" where
  "loadDependencesWalk depKinds instOp [] prob = Inr prob"
| "loadDependencesWalk depKinds instOp ((opRef, opOp) # ops) prob =
     (case dependences opOp of
        None \<Rightarrow> loadDependencesWalk depKinds instOp ops prob
      | Some depsAttr \<Rightarrow>
          (case loadDependenceAttrs depKinds instOp opRef opOp depsAttr prob of
             Inl e \<Rightarrow> Inl e
           | Inr prob' \<Rightarrow> loadDependencesWalk depKinds instOp ops prob'))"

text \<open>
  \<open>loadProblem\<close>: the instance properties, the operator types, the operations (all of
  them before any dependence), then the dependences.
\<close>

definition loadProblem ::
  "('a, 'a Problem, OpRef) PropertyKind list \<Rightarrow> ('a, 'a Problem, string) PropertyKind list \<Rightarrow>
   ('a, 'a Problem, Dependence) PropertyKind list \<Rightarrow> ('a, 'a Problem, unit) PropertyKind list \<Rightarrow>
   'a InstanceOp \<Rightarrow> error + 'a Problem" where
  "loadProblem opKinds oprKinds depKinds instKinds instOp =
     (let prob0 = Problem_get instOp;
          prob1 = loadInstanceProperties instKinds prob0 (instProperties instOp);
          prob2 = foldl (\<lambda>prob oprOp.
                    loadOperatorTypeProperties oprKinds (insertOperatorType prob (oprName oprOp))
                      (oprName oprOp) (oprProperties oprOp))
                    prob1 (walkOperatorTypeOps instOp);
          prob3 = foldl (\<lambda>prob (opRef, opOp).
                    loadOperationProperties opKinds (insertOperation prob opRef) opRef
                      (opProperties opOp))
                    prob2 (operationOpsWithRefs instOp)
      in loadDependencesWalk depKinds instOp (operationOpsWithRefs instOp) prob3)"



section \<open>saveProblem\<close>

text \<open>
  \<open>opNames\<close> is a \<open>DenseMap\<close>: a list of pairs with distinct keys, whose length is
  \<open>opNames.size()\<close>; \<open>opNames[k] = v\<close> replaces the entry of \<open>k\<close> or adds one, \<open>count\<close> and
  \<open>lookup\<close> are \<open>map_of\<close>. \<open>Twine(n)\<close> is the decimal numeral of \<open>n\<close>.
\<close>

fun DenseMap_set :: "('k \<times> 'v) list \<Rightarrow> 'k \<Rightarrow> 'v \<Rightarrow> ('k \<times> 'v) list" where
  "DenseMap_set [] k v = [(k, v)]"
| "DenseMap_set ((k', v') # m) k v =
     (if k' = k then (k, v) # m else (k', v') # DenseMap_set m k v)"

definition digitChar :: "nat \<Rightarrow> char" where
  "digitChar d = char_of (48 + d)"

fun decimal :: "nat \<Rightarrow> string" where
  "decimal n = (if n < 10 then [digitChar n] else decimal (n div 10) @ [digitChar (n mod 10)])"

text \<open>
  The first loop of \<open>saveProblem\<close> (Utilities.h): the names. In
  \<open>opNames[src] = ... Twine(opNames.size())\<close> the right-hand side is evaluated first (C++17),
  so the size is the one before \<open>src\<close> is entered.
\<close>

definition nameDependence ::
  "(OpRef \<Rightarrow> string option) \<Rightarrow> (OpRef \<times> string) list \<Rightarrow> Dependence \<Rightarrow> (OpRef \<times> string) list" where
  "nameDependence operationNameFn opNames dep =
     (case dep of
        DefUse op i \<Rightarrow> opNames
      | Auxiliary src dst \<Rightarrow>
          if map_of opNames src \<noteq> None then opNames
          else (case operationNameFn src of
                  Some providedName \<Rightarrow> DenseMap_set opNames src providedName
                | None \<Rightarrow> DenseMap_set opNames src (''Op'' @ decimal (length opNames))))"

definition nameOperation ::
  "(OpRef \<Rightarrow> string option) \<Rightarrow> 'a Problem \<Rightarrow> (OpRef \<times> string) list \<Rightarrow> OpRef \<Rightarrow> (OpRef \<times> string) list" where
  "nameOperation operationNameFn prob opNames op =
     foldl (nameDependence operationNameFn)
       (case operationNameFn op of
          Some providedName \<Rightarrow> DenseMap_set opNames op providedName
        | None \<Rightarrow> opNames)
       (getDependences prob op)"

definition assignNames :: "(OpRef \<Rightarrow> string option) \<Rightarrow> 'a Problem \<Rightarrow> (OpRef \<times> string) list" where
  "assignNames operationNameFn prob = foldl (nameOperation operationNameFn prob) [] (operations prob)"

text \<open>
  The second loop: the dependence records of one operation. \<open>auxOperandIdx\<close> is an
  \<open>unsigned\<close>. The \<open>continue\<close> of a def-use dependence with properties, the \<open>continue\<close> of
  one without, and the auxiliary case are the three branches.
\<close>

fun saveDependences ::
  "('a, 'a Problem, Dependence) PropertyKind list \<Rightarrow> 'a Problem \<Rightarrow> (OpRef \<times> string) list \<Rightarrow>
   Dependence list \<Rightarrow> 'a DependenceAttr list \<Rightarrow> 32 word \<Rightarrow> error + 'a DependenceAttr list" where
  "saveDependences depKinds prob opNames [] depAttrs auxOperandIdx = Inr depAttrs"
| "saveDependences depKinds prob opNames (dep # deps) depAttrs auxOperandIdx =
     (let depProps = saveDependenceProperties depKinds prob dep in
      case dep of
        DefUse op i \<Rightarrow>
          (case depProps of
             Some ps \<Rightarrow>
               saveDependences depKinds prob opNames deps
                 (depAttrs @ [\<lparr>operandIdx = of_nat i, sourceRef = None, depProperties = depProps\<rparr>])
                 auxOperandIdx
           | None \<Rightarrow> saveDependences depKinds prob opNames deps depAttrs auxOperandIdx)
      | Auxiliary src dst \<Rightarrow>
          (case map_of opNames src of
             None \<Rightarrow> Inl (AssertionFailed ''sourceOpName'')
           | Some sourceOpName \<Rightarrow>
               saveDependences depKinds prob opNames deps
                 (depAttrs @ [\<lparr>operandIdx = auxOperandIdx, sourceRef = Some sourceOpName,
                               depProperties = depProps\<rparr>])
                 (auxOperandIdx + 1)))"

text \<open>
  \<open>ValueMapper\<close>: \<open>v.set\<close> maps the results of the \<open>i\<close>-th operation of the Problem to the
  results of the \<open>i\<close>-th operation created; \<open>v.get\<close> of a value that is never set stays a
  backedge.
\<close>

fun indexOf :: "'k list \<Rightarrow> 'k \<Rightarrow> nat option" where
  "indexOf [] k = None"
| "indexOf (x # xs) k = (if x = k then Some 0 else map_option Suc (indexOf xs k))"

definition ValueMapper_get :: "'a Problem \<Rightarrow> Value \<Rightarrow> Value" where
  "ValueMapper_get prob v =
     (case v of
        OpResult src r \<Rightarrow>
          (case indexOf (operations prob) src of
             Some i \<Rightarrow> if r < getNumResults (containingOp prob) src then OpResult (OperationRef i) r
                       else Backedge
           | None \<Rightarrow> Backedge)
      | Backedge \<Rightarrow> Backedge)"

definition saveOperation ::
  "('a, 'a Problem, OpRef) PropertyKind list \<Rightarrow> ('a, 'a Problem, Dependence) PropertyKind list \<Rightarrow>
   'a Problem \<Rightarrow> (OpRef \<times> string) list \<Rightarrow> OpRef \<Rightarrow> error + 'a OperationOp" where
  "saveOperation opKinds depKinds prob opNames op =
     (case saveDependences depKinds prob opNames (getDependences prob op) []
             (of_nat (length (getOperands (containingOp prob) op))) of
        Inl e \<Rightarrow> Inl e
      | Inr depAttrs \<Rightarrow>
          Inr \<lparr>sym_name = map_of opNames op,
               operands = map (ValueMapper_get prob) (getOperands (containingOp prob) op),
               numResults = getNumResults (containingOp prob) op,
               dependences = (if depAttrs = [] then None else Some depAttrs),
               opProperties = saveOperationProperties opKinds prob op\<rparr>)"

fun saveOperations ::
  "('a, 'a Problem, OpRef) PropertyKind list \<Rightarrow> ('a, 'a Problem, Dependence) PropertyKind list \<Rightarrow>
   'a Problem \<Rightarrow> (OpRef \<times> string) list \<Rightarrow> OpRef list \<Rightarrow> error + 'a OperationOp list" where
  "saveOperations opKinds depKinds prob opNames [] = Inr []"
| "saveOperations opKinds depKinds prob opNames (op # ops) =
     (case saveOperation opKinds depKinds prob opNames op of
        Inl e \<Rightarrow> Inl e
      | Inr opOp \<Rightarrow>
          (case saveOperations opKinds depKinds prob opNames ops of
             Inl e \<Rightarrow> Inl e
           | Inr opOps \<Rightarrow> Inr (opOp # opOps)))"

definition saveProblem ::
  "('a, 'a Problem, OpRef) PropertyKind list \<Rightarrow> ('a, 'a Problem, string) PropertyKind list \<Rightarrow>
   ('a, 'a Problem, Dependence) PropertyKind list \<Rightarrow> ('a, 'a Problem, unit) PropertyKind list \<Rightarrow>
   'a Problem \<Rightarrow> string \<Rightarrow> string \<Rightarrow> (OpRef \<Rightarrow> string option) \<Rightarrow> error + 'a InstanceOp" where
  "saveProblem opKinds oprKinds depKinds instKinds prob instName probName operationNameFn =
     (let oprOps = map (\<lambda>opr. \<lparr>oprName = opr,
                               oprProperties = saveOperatorTypeProperties oprKinds prob opr\<rparr>)
                     (operatorTypes prob);
          opNames = assignNames operationNameFn prob
      in case saveOperations opKinds depKinds prob opNames (operations prob) of
           Inl e \<Rightarrow> Inl e
         | Inr opOps \<Rightarrow>
             Inr \<lparr>instanceName = instName, problemName = probName,
                  instProperties = saveInstanceProperties instKinds prob,
                  body = map OperatorTypeBodyOp oprOps @ map OperationBodyOp opOps\<rparr>)"

text \<open>
  Of the names the first loop records, those of an operation the caller's function gives
  no name are synthesized, the others are supplied by the caller. The sources of
  auxiliary dependences are the operations that need a name. \<open>namesInvariant\<close> is what
  the first loop maintains: one entry per operation, a supplied name is the caller's, a
  synthesized name is \<open>Op\<close> with a number below the size of the table, and the
  synthesized names are distinct.
\<close>

definition synthesized :: "(OpRef \<Rightarrow> string option) \<Rightarrow> (OpRef \<times> string) list \<Rightarrow> (OpRef \<times> string) list" where
  "synthesized operationNameFn opNames = filter (\<lambda>entry. operationNameFn (fst entry) = None) opNames"

definition auxiliarySources :: "'a Problem \<Rightarrow> OpRef set" where
  "auxiliarySources prob =
     {src. \<exists>op \<in> set (operations prob). \<exists>dst. Auxiliary src dst \<in> set (getDependences prob op)}"

definition namedBelow :: "(OpRef \<Rightarrow> string option) \<Rightarrow> nat \<Rightarrow> OpRef \<times> string \<Rightarrow> bool" where
  "namedBelow operationNameFn bound entry =
     (case operationNameFn (fst entry) of
        Some providedName \<Rightarrow> snd entry = providedName
      | None \<Rightarrow> \<exists>k < bound. snd entry = ''Op'' @ decimal k)"

definition namesInvariant :: "(OpRef \<Rightarrow> string option) \<Rightarrow> (OpRef \<times> string) list \<Rightarrow> bool" where
  "namesInvariant operationNameFn opNames =
     (distinct (map fst opNames) \<and>
      list_all (namedBelow operationNameFn (length opNames)) opNames \<and>
      distinct (map snd (synthesized operationNameFn opNames)))"

definition provided :: "(OpRef \<Rightarrow> string option) \<Rightarrow> (OpRef \<times> string) list \<Rightarrow> (OpRef \<times> string) list" where
  "provided operationNameFn opNames = filter (\<lambda>entry. operationNameFn (fst entry) \<noteq> None) opNames"

text \<open>
  The dependence records of an operation in the words of the specification, for any
  enumeration \<open>deps\<close> of its dependences: a data edge yields a record only if it has
  encoded properties, at its own slot index and with no source name; an auxiliary edge
  always yields a record, with the name of its source, at the input count plus the
  number of auxiliary edges enumerated before it.
\<close>

definition auxiliaryBefore :: "Dependence list \<Rightarrow> nat \<Rightarrow> nat" where
  "auxiliaryBefore deps k = length (filter isAuxiliary (take k deps))"

definition emittedRecord ::
  "('a, 'a Problem, Dependence) PropertyKind list \<Rightarrow> 'a Problem \<Rightarrow> (OpRef \<times> string) list \<Rightarrow>
   32 word \<Rightarrow> Dependence \<Rightarrow> 'a DependenceAttr option" where
  "emittedRecord depKinds prob opNames auxIdx dep =
     (case dep of
        DefUse op i \<Rightarrow>
          (case saveDependenceProperties depKinds prob dep of
             None \<Rightarrow> None
           | Some ps \<Rightarrow> Some \<lparr>operandIdx = of_nat i, sourceRef = None, depProperties = Some ps\<rparr>)
      | Auxiliary src dst \<Rightarrow>
          Some \<lparr>operandIdx = auxIdx, sourceRef = map_of opNames src,
                depProperties = saveDependenceProperties depKinds prob dep\<rparr>)"

definition emittedRecords ::
  "('a, 'a Problem, Dependence) PropertyKind list \<Rightarrow> 'a Problem \<Rightarrow> (OpRef \<times> string) list \<Rightarrow>
   32 word \<Rightarrow> Dependence list \<Rightarrow> 'a DependenceAttr list" where
  "emittedRecords depKinds prob opNames numInputs deps =
     List.map_filter
       (\<lambda>k. emittedRecord depKinds prob opNames (numInputs + of_nat (auxiliaryBefore deps k)) (deps ! k))
       [0 ..< length deps]"

definition sourceNamed :: "(OpRef \<times> string) list \<Rightarrow> Dependence \<Rightarrow> bool" where
  "sourceNamed opNames dep =
     (case dep of DefUse op i \<Rightarrow> True | Auxiliary src dst \<Rightarrow> map_of opNames src \<noteq> None)"

section \<open>The round trip\<close>

text \<open>
  With the property kinds of the previous section, the properties at one attachment point
  are a table of slots, one per kind name. Loading an encoded sequence fills the slot of
  every value whose name is one of the kinds asked for, a later value replacing an
  earlier one; saving asks the kinds in order and yields the absent marker when no slot
  is filled. A table is in order when the value in a slot carries the name of the slot
  and the slot is one of the kinds.
\<close>

definition loadSlots ::
  "string list \<Rightarrow> (string \<Rightarrow> (string \<times> 'v) option) \<Rightarrow> (string \<times> 'v) list option \<Rightarrow>
   string \<Rightarrow> (string \<times> 'v) option" where
  "loadSlots names slots props =
     (case props of
        None \<Rightarrow> slots
      | Some ps \<Rightarrow> foldl (\<lambda>m prop. if fst prop \<in> set names then m(fst prop := Some prop) else m) slots ps)"

definition saveSlots ::
  "string list \<Rightarrow> (string \<Rightarrow> (string \<times> 'v) option) \<Rightarrow> (string \<times> 'v) list option" where
  "saveSlots names slots =
     (if List.map_filter slots names = [] then None else Some (List.map_filter slots names))"

definition slotsOk :: "string list \<Rightarrow> (string \<Rightarrow> (string \<times> 'v) option) \<Rightarrow> bool" where
  "slotsOk names slots = (\<forall>k prop. slots k = Some prop \<longrightarrow> fst prop = k \<and> k \<in> set names)"

text \<open>
  What \<open>saveProblem\<close> builds when no \<open>assert\<close> fails: the dependence records, the
  operation and the instance, as total functions of the Problem and the name table.
\<close>

definition savedRecords ::
  "('a, 'a Problem, Dependence) PropertyKind list \<Rightarrow> 'a Problem \<Rightarrow> (OpRef \<times> string) list \<Rightarrow>
   OpRef \<Rightarrow> 'a DependenceAttr list" where
  "savedRecords depKinds prob opNames op =
     emittedRecords depKinds prob opNames (of_nat (length (getOperands (containingOp prob) op)))
       (getDependences prob op)"

definition savedOperation ::
  "('a, 'a Problem, OpRef) PropertyKind list \<Rightarrow> ('a, 'a Problem, Dependence) PropertyKind list \<Rightarrow>
   'a Problem \<Rightarrow> (OpRef \<times> string) list \<Rightarrow> OpRef \<Rightarrow> 'a OperationOp" where
  "savedOperation opKinds depKinds prob opNames op =
     \<lparr>sym_name = map_of opNames op,
      operands = map (ValueMapper_get prob) (getOperands (containingOp prob) op),
      numResults = getNumResults (containingOp prob) op,
      dependences = (if savedRecords depKinds prob opNames op = [] then None
                     else Some (savedRecords depKinds prob opNames op)),
      opProperties = saveOperationProperties opKinds prob op\<rparr>"

definition savedInstance ::
  "('a, 'a Problem, OpRef) PropertyKind list \<Rightarrow> ('a, 'a Problem, string) PropertyKind list \<Rightarrow>
   ('a, 'a Problem, Dependence) PropertyKind list \<Rightarrow> ('a, 'a Problem, unit) PropertyKind list \<Rightarrow>
   'a Problem \<Rightarrow> string \<Rightarrow> string \<Rightarrow> (OpRef \<Rightarrow> string option) \<Rightarrow> 'a InstanceOp" where
  "savedInstance opKinds oprKinds depKinds instKinds prob instName probName operationNameFn =
     \<lparr>instanceName = instName, problemName = probName,
      instProperties = saveInstanceProperties instKinds prob,
      body = map OperatorTypeBodyOp
               (map (\<lambda>opr. \<lparr>oprName = opr,
                             oprProperties = saveOperatorTypeProperties oprKinds prob opr\<rparr>)
                  (operatorTypes prob)) @
             map OperationBodyOp
               (map (savedOperation opKinds depKinds prob (assignNames operationNameFn prob))
                  (operations prob))\<rparr>"

text \<open>
  Modelled from the spec: what makes an instance valid beyond the two verifiers of
  SSPOps.cpp, which is checked by the surrounding framework and is not part of the
  sources. The symbol table of the instance has no name twice (the name uniqueness the
  specification assumes of the name resolution); every operand is a result of an
  operation of the instance; the operand count is an \<open>unsigned\<close>. A valid instance has
  these three properties, and every operation of it passes \<open>verify\<close> and
  \<open>verifySymbolUses\<close>. A caller's naming function reproduces the names of an instance
  when it gives every operation the symbol name it has there, and none to an operation
  without one.
\<close>

definition symbolNames :: "'a InstanceOp \<Rightarrow> string list" where
  "symbolNames instOp =
     List.map_filter
       (\<lambda>bodyOp. case bodyOp of
                    OperatorTypeBodyOp oprOp \<Rightarrow> Some (oprName oprOp)
                  | OperationBodyOp opOp \<Rightarrow> sym_name opOp)
       (body instOp)"

definition definedValue :: "'a InstanceOp \<Rightarrow> Value \<Rightarrow> bool" where
  "definedValue instOp v =
     (case v of
        OpResult ref r \<Rightarrow>
          (case getOperationOp instOp ref of Some opOp \<Rightarrow> r < numResults opOp | None \<Rightarrow> False)
      | Backedge \<Rightarrow> False)"

definition validInstance :: "'a InstanceOp \<Rightarrow> bool" where
  "validInstance instOp =
     (distinct (symbolNames instOp) \<and>
      list_all
        (\<lambda>opOp. list_all (definedValue instOp) (operands opOp) \<and>
                length (operands opOp) < 2^32 \<and>
                verify opOp = Inr () \<and>
                verifySymbolUses instOp opOp = Inr ())
        (walkOperationOps instOp))"

definition reproducesNames :: "'a InstanceOp \<Rightarrow> (OpRef \<Rightarrow> string option) \<Rightarrow> bool" where
  "reproducesNames instOp operationNameFn =
     list_all (\<lambda>k. operationNameFn (OperationRef k) = sym_name (walkOperationOps instOp ! k))
       [0 ..< length (walkOperationOps instOp)]"

text \<open>
  The invariants of the proof. A dependence record can be loaded when its slot exists or
  its name resolves to an operation. The third pass of \<open>loadProblem\<close> changes only the
  inserted dependences and the dependence properties of the Problem \<open>base\<close> it starts
  from, and keeps the inserted dependences distinct, between operations of the Problem,
  from named sources, grouped by destination in the order of the operations
  (\<open>destinationRank\<close>), and the properties in order and at dependences of the Problem.
  \<open>wellFormed\<close> is what holds of the Problem at the end; \<open>namesResolve\<close> is what the
  naming function must do for the names written by \<open>saveProblem\<close> to resolve to the
  operations they were written for; \<open>reloadable\<close> is what makes the record saved for a
  dependence load back as that dependence.
\<close>

definition loadable :: "'a InstanceOp \<Rightarrow> 'a OperationOp \<Rightarrow> 'a DependenceAttr \<Rightarrow> bool" where
  "loadable instOp opOp dep =
     (case sourceRef dep of
        None \<Rightarrow> unat (operandIdx dep) < length (operands opOp)
      | Some ref \<Rightarrow> resolvesToOperation instOp ref)"

definition destinationRank :: "Dependence \<Rightarrow> nat" where
  "destinationRank dep = (case getDestination dep of OperationRef k \<Rightarrow> k | OperatorTypeRef k \<Rightarrow> k)"

definition walkInvariant ::
  "string list \<Rightarrow> (string \<times> 'v) Problem \<Rightarrow> nat \<Rightarrow> (string \<times> 'v) Problem \<Rightarrow> bool" where
  "walkInvariant depNs base bound prob =
     (\<exists>ins dp.
        prob = base\<lparr>insertedDependences := ins, dependenceProperty := dp\<rparr> \<and>
        distinct ins \<and>
        (\<forall>dep \<in> set ins. \<exists>src \<in> set (operations base). \<exists>dst \<in> set (operations base).
           dep = Auxiliary src dst \<and> (\<exists>name. lookupSymbolIn (containingOp base) name = Some src)) \<and>
        (\<forall>dep \<in> set ins. destinationRank dep \<le> bound) \<and>
        sorted (map destinationRank ins) \<and>
        (\<forall>dep. slotsOk depNs (dp dep)) \<and>
        (\<forall>dep. dp dep \<noteq> (\<lambda>k. None) \<longrightarrow>
           dep \<in> set ins \<or>
           (\<exists>op \<in> set (operations base). \<exists>i < length (getOperands (containingOp base) op).
              dep = DefUse op i)))"

definition wellFormed ::
  "string list \<Rightarrow> string list \<Rightarrow> string list \<Rightarrow> string list \<Rightarrow> (string \<times> 'v) Problem \<Rightarrow> bool" where
  "wellFormed opNs oprNs depNs instNs prob =
     (operations prob = map OperationRef [0 ..< length (walkOperationOps (containingOp prob))] \<and>
      list_all (\<lambda>opOp. length (operands opOp) < 2^32) (walkOperationOps (containingOp prob)) \<and>
      distinct (operatorTypes prob) \<and>
      distinct (insertedDependences prob) \<and>
      (\<forall>dep \<in> set (insertedDependences prob).
         \<exists>src \<in> set (operations prob). \<exists>dst \<in> set (operations prob). dep = Auxiliary src dst) \<and>
      sorted (map destinationRank (insertedDependences prob)) \<and>
      slotsOk instNs (instanceProperty prob) \<and>
      (\<forall>opr. slotsOk oprNs (operatorTypeProperty prob opr)) \<and>
      (\<forall>op. slotsOk opNs (operationProperty prob op)) \<and>
      (\<forall>dep. slotsOk depNs (dependenceProperty prob dep)) \<and>
      (\<forall>opr. opr \<notin> set (operatorTypes prob) \<longrightarrow> operatorTypeProperty prob opr = (\<lambda>k. None)) \<and>
      (\<forall>op. op \<notin> set (operations prob) \<longrightarrow> operationProperty prob op = (\<lambda>k. None)) \<and>
      (\<forall>dep. (\<forall>op \<in> set (operations prob). dep \<notin> set (getDependences prob op)) \<longrightarrow>
             dependenceProperty prob dep = (\<lambda>k. None)))"

definition namesResolve :: "(OpRef \<Rightarrow> string option) \<Rightarrow> 'a Problem \<Rightarrow> bool" where
  "namesResolve f prob =
     ((\<forall>src \<in> auxiliarySources prob. f src \<noteq> None) \<and>
      (\<forall>op \<in> set (operations prob). \<forall>op' \<in> set (operations prob).
         f op \<noteq> None \<and> f op = f op' \<longrightarrow> op = op') \<and>
      (\<forall>op \<in> set (operations prob). \<forall>name. f op = Some name \<longrightarrow> name \<notin> set (operatorTypes prob)))"

definition reloadable ::
  "'a InstanceOp \<Rightarrow> OpRef list \<Rightarrow> (OpRef \<times> string) list \<Rightarrow> OpRef \<Rightarrow> nat \<Rightarrow> Dependence \<Rightarrow> bool" where
  "reloadable instOp ops opNames opRef numInputs dep =
     (case dep of
        DefUse op i \<Rightarrow> op = opRef \<and> i < numInputs \<and> i < 2^32
      | Auxiliary src dst \<Rightarrow>
          dst = opRef \<and> src \<in> set ops \<and> opRef \<in> set ops \<and>
          (\<exists>name. map_of opNames src = Some name \<and> lookupSymbolIn instOp name = Some src))"

section \<open>Sample inputs\<close>

text \<open>
  An operation with two operands, a property list on the second one and two auxiliary
  dependences, as the printer would show it:
  \<open>operation @op2(%0, %1 [7], @op0, @op1 [8])\<close>.
\<close>

definition exampleOperation :: "nat OperationOp" where
  "exampleOperation =
     \<lparr>sym_name = Some ''op2'',
      operands = [OpResult (OperationRef 0) 0, OpResult (OperationRef 1) 0],
      numResults = 1,
      dependences = Some
        [\<lparr>operandIdx = 1, sourceRef = None, depProperties = Some [7]\<rparr>,
         \<lparr>operandIdx = 2, sourceRef = Some ''op0'', depProperties = None\<rparr>,
         \<lparr>operandIdx = 3, sourceRef = Some ''op1'', depProperties = Some [8]\<rparr>],
      opProperties = None\<rparr>"

text \<open>The same dependence list as the parser reads it.\<close>

definition exampleEntries :: "(DependenceSource \<times> nat list option) list" where
  "exampleEntries =
     [(SSAOperand ''%0'', None), (SSAOperand ''%1'', Some [7]),
      (SymbolReference ''op0'', None), (SymbolReference ''op1'', Some [8])]"

text \<open>An instance whose only operation carries a property of a kind nobody asked for.\<close>

definition exampleUnrecognized :: "(string \<times> nat) InstanceOp" where
  "exampleUnrecognized =
     \<lparr>instanceName = ''inst'', problemName = ''Problem'', instProperties = None,
      body = [OperationBodyOp
                \<lparr>sym_name = None, operands = [], numResults = 0, dependences = None,
                 opProperties = Some [(''unknown'', 5)]\<rparr>]\<rparr>"

text \<open>
  An instance whose second operation names two sources, \<open>@op0\<close> and \<open>@missing\<close>; no
  operation is called \<open>missing\<close>.
\<close>

definition danglingOperation :: "nat OperationOp" where
  "danglingOperation =
     \<lparr>sym_name = None, operands = [], numResults = 0,
      dependences = Some [\<lparr>operandIdx = 0, sourceRef = Some ''op0'', depProperties = None\<rparr>,
                          \<lparr>operandIdx = 1, sourceRef = Some ''missing'', depProperties = None\<rparr>],
      opProperties = None\<rparr>"

definition exampleDangling :: "nat InstanceOp" where
  "exampleDangling =
     \<lparr>instanceName = ''inst'', problemName = ''Problem'', instProperties = None,
      body = [OperatorTypeBodyOp \<lparr>oprName = ''slow'', oprProperties = None\<rparr>,
              OperationBodyOp
                \<lparr>sym_name = Some ''op0'', operands = [], numResults = 1, dependences = None,
                 opProperties = None\<rparr>,
              OperationBodyOp danglingOperation]\<rparr>"

text \<open>
  The scenario of the specification: operator types \<open>slow\<close> and \<open>fast\<close>, an operation
  \<open>@op0\<close>, an operation that uses its result (with a property on that edge), and an
  operation with the auxiliary dependence \<open>@op0\<close>.
\<close>

definition exampleInstance :: "(string \<times> nat) InstanceOp" where
  "exampleInstance =
     \<lparr>instanceName = ''example'', problemName = ''Problem'', instProperties = Some [(''II'', 2)],
      body =
        [OperatorTypeBodyOp \<lparr>oprName = ''slow'', oprProperties = Some [(''latency'', 3)]\<rparr>,
         OperatorTypeBodyOp \<lparr>oprName = ''fast'', oprProperties = Some [(''latency'', 1)]\<rparr>,
         OperationBodyOp
           \<lparr>sym_name = Some ''op0'', operands = [], numResults = 1, dependences = None,
            opProperties = Some [(''startTime'', 0)]\<rparr>,
         OperationBodyOp
           \<lparr>sym_name = None, operands = [OpResult (OperationRef 0) 0], numResults = 1,
            dependences = Some [\<lparr>operandIdx = 0, sourceRef = None,
                                 depProperties = Some [(''distance'', 2)]\<rparr>],
            opProperties = None\<rparr>,
         OperationBodyOp
           \<lparr>sym_name = None, operands = [], numResults = 1,
            dependences = Some [\<lparr>operandIdx = 0, sourceRef = Some ''op0'',
                                 depProperties = None\<rparr>],
            opProperties = Some [(''startTime'', 4)]\<rparr>]\<rparr>"

text \<open>
  An instance with an auxiliary dependence on \<open>@src\<close>, and a caller who names the
  dependent operation \<open>Op1\<close> and nothing else.
\<close>

definition exampleNameClash :: "nat InstanceOp" where
  "exampleNameClash =
     \<lparr>instanceName = ''clash'', problemName = ''Problem'', instProperties = None,
      body =
        [OperationBodyOp
           \<lparr>sym_name = Some ''src'', operands = [], numResults = 0, dependences = None,
            opProperties = None\<rparr>,
         OperationBodyOp
           \<lparr>sym_name = None, operands = [], numResults = 0,
            dependences = Some [\<lparr>operandIdx = 0, sourceRef = Some ''src'', depProperties = None\<rparr>],
            opProperties = None\<rparr>]\<rparr>"

definition clashNameFn :: "OpRef \<Rightarrow> string option" where
  "clashNameFn op = (if op = OperationRef 1 then Some ''Op1'' else None)"

text \<open>
  The Problem loaded from \<open>exampleInstance\<close>, and that Problem saved again by a caller who
  names the first operation \<open>op0\<close>.
\<close>

definition exampleNameFn :: "OpRef \<Rightarrow> string option" where
  "exampleNameFn op = (if op = OperationRef 0 then Some ''op0'' else None)"

definition exampleProblem :: "(string \<times> nat) Problem" where
  "exampleProblem =
     projr (loadProblem [OperationProperty ''startTime''] [OperatorTypeProperty ''latency'']
              [DependenceProperty ''distance''] [InstanceProperty ''II''] exampleInstance)"

definition exampleSaved :: "error + (string \<times> nat) InstanceOp" where
  "exampleSaved =
     saveProblem [OperationProperty ''startTime''] [OperatorTypeProperty ''latency'']
       [DependenceProperty ''distance''] [InstanceProperty ''II''] exampleProblem
       ''example'' ''Problem'' exampleNameFn"

text \<open>
  An instance whose first operation comes before the operator type and carries a property
  of a kind nobody asks for, and the instance \<open>saveProblem\<close> writes for the Problem loaded
  from it when the caller names the first operation \<open>a\<close> again: the operator type first,
  and the property gone.
\<close>

definition exampleInterleaved :: "(string \<times> nat) InstanceOp" where
  "exampleInterleaved =
     \<lparr>instanceName = ''mixed'', problemName = ''Problem'', instProperties = Some [(''II'', 2)],
      body =
        [OperationBodyOp
           \<lparr>sym_name = Some ''a'', operands = [], numResults = 1, dependences = None,
            opProperties = Some [(''colour'', 9), (''startTime'', 0)]\<rparr>,
         OperatorTypeBodyOp \<lparr>oprName = ''slow'', oprProperties = Some [(''latency'', 3)]\<rparr>,
         OperationBodyOp
           \<lparr>sym_name = None, operands = [OpResult (OperationRef 0) 0], numResults = 0,
            dependences = Some [\<lparr>operandIdx = 0, sourceRef = None,
                                 depProperties = Some [(''distance'', 1)]\<rparr>,
                                \<lparr>operandIdx = 1, sourceRef = Some ''a'',
                                 depProperties = Some [(''distance'', 2)]\<rparr>],
            opProperties = None\<rparr>]\<rparr>"

definition exampleInterleavedNameFn :: "OpRef \<Rightarrow> string option" where
  "exampleInterleavedNameFn op = (if op = OperationRef 0 then Some ''a'' else None)"

definition exampleInterleavedSaved :: "(string \<times> nat) InstanceOp" where
  "exampleInterleavedSaved =
     \<lparr>instanceName = ''again'', problemName = ''Problem'', instProperties = Some [(''II'', 2)],
      body =
        [OperatorTypeBodyOp \<lparr>oprName = ''slow'', oprProperties = Some [(''latency'', 3)]\<rparr>,
         OperationBodyOp
           \<lparr>sym_name = Some ''a'', operands = [], numResults = 1, dependences = None,
            opProperties = Some [(''startTime'', 0)]\<rparr>,
         OperationBodyOp
           \<lparr>sym_name = None, operands = [OpResult (OperationRef 0) 0], numResults = 0,
            dependences = Some [\<lparr>operandIdx = 0, sourceRef = None,
                                 depProperties = Some [(''distance'', 1)]\<rparr>,
                                \<lparr>operandIdx = 1, sourceRef = Some ''a'',
                                 depProperties = Some [(''distance'', 2)]\<rparr>],
            opProperties = None\<rparr>]\<rparr>"

section \<open>Machine integers: the signed reading of a 32-bit word\<close>

lemma sint_uint_32: "sint (w::32 word) = (if uint w < 2^31 then uint w else uint w - 2^32)"
proof -
  have a: "sint w = (uint w + 2 ^ 31) mod 2 ^ 32 - 2 ^ 31"
    using int_word_sint [of "uint w", where 'a=32] by simp
  have b: "0 \<le> uint w" "uint w < 2^32"
    using uint_bounded [of w] by simp_all
  show ?thesis
  proof (cases "uint w < 2^31")
    case True
    then have "(uint w + 2 ^ 31) mod 2 ^ 32 = uint w + 2^31"
      using b by (intro mod_pos_pos_trivial) simp_all
    with True a show ?thesis by simp
  next
    case False
    then have "(uint w + 2 ^ 31) mod 2 ^ 32 = uint w + 2^31 - 2^32"
      using b by (simp add: mod_pos_geq)
    with False a show ?thesis by simp
  qed
qed

lemma sint_32: "sint (w::32 word) = (if unat w < 2^31 then int (unat w) else int (unat w) - 2^32)"
proof -
  have c: "uint w = int (unat w)" by simp
  have d: "(uint w < 2^31) = (unat w < 2^31)" unfolding c
    using of_nat_less_iff [of "unat w" "2^31", where 'a=int] by simp
  show ?thesis unfolding sint_uint_32 d unfolding c by simp
qed

lemma unat_32_bound: "unat (w::32 word) < 2^32"
  using unsigned_less [of w, where 'a=nat] by simp

lemma sint_small: "unat (w::32 word) < 2^31 \<Longrightarrow> sint w = int (unat w)"
  by (simp add: sint_32)

lemma sint_neg: "\<not> unat (w::32 word) < 2^31 \<Longrightarrow> sint w < 0"
proof -
  assume a: "\<not> unat w < 2^31"
  have "int (unat w) < 2^32"
    using unat_32_bound [of w] of_nat_less_iff [of "unat w" "2^32", where 'a=int] by simp
  with a show ?thesis unfolding sint_32 by simp
qed

lemma sint_nonneg_small: "0 \<le> sint (w::32 word) \<Longrightarrow> unat w < 2^31"
  using sint_neg [of w] by linarith

lemma sint_nonneg_less: "0 \<le> sint (a::32 word) \<Longrightarrow> sint a < sint (b::32 word) \<Longrightarrow> unat a < unat b"
proof -
  assume a: "0 \<le> sint a" and b: "sint a < sint b"
  have "unat a < 2^31" using a by (rule sint_nonneg_small)
  then have c: "sint a = int (unat a)" by (rule sint_small)
  have "0 \<le> sint b" using a b by linarith
  then have "unat b < 2^31" by (rule sint_nonneg_small)
  then have d: "sint b = int (unat b)" by (rule sint_small)
  from b c d show ?thesis by linarith
qed

lemma sint_minus_one: "sint (- 1 :: 32 word) = - 1"
  by simp

lemma unat_succ: "unat (l::32 word) < 2^31 \<Longrightarrow> unat (l + 1) = Suc (unat l)"
  by (simp add: unat_word_ariths)

lemma sint_eq_iff_32: "(sint (a::32 word) = sint (b::32 word)) = (a = b)"
  by (rule signed_word_eqI [THEN iffI, rotated -1]) auto

lemma sint_succ: "sint (l::32 word) < 2^31 - 1 \<Longrightarrow> sint (l + 1) = sint l + 1"
proof -
  assume a: "sint l < 2^31 - 1"
  have b: "- (2^31) \<le> sint l" using sint_ge [of l] by simp
  have "sint (l + 1) = signed_take_bit 31 (sint l + 1)"
    by (simp add: sint_word_add)
  also have "\<dots> = sint l + 1"
    using a b by (intro signed_take_bit_int_eq_self) simp_all
  finally show ?thesis .
qed

section \<open>Properties of OperationOp::verify\<close>

lemma verifyLoop_defUse_bound:
  "verifyLoop n l deps = Inr () \<Longrightarrow> - 1 \<le> sint l \<or> sint n \<le> sint l \<Longrightarrow>
   dep \<in> set deps \<Longrightarrow> sourceRef dep = None \<Longrightarrow> unat (operandIdx dep) < unat n"
proof (induction deps arbitrary: l)
  case Nil
  then show ?case by simp
next
  case (Cons d ds)
  show ?case
  proof (cases "sourceRef d")
    case None
    with Cons.prems(1) have a: "sint (operandIdx d) < sint n" "sint l < sint (operandIdx d)"
      and b: "verifyLoop n (operandIdx d) ds = Inr ()"
      by (auto simp: Let_def split: if_splits)
    from a Cons.prems(2) have c: "0 \<le> sint (operandIdx d)" by linarith
    show ?thesis
    proof (cases "dep = d")
      case True
      with a c show ?thesis by (simp add: sint_nonneg_less)
    next
      case False
      with Cons.prems(3) have "dep \<in> set ds" by simp
      with Cons.IH [OF b _ _ Cons.prems(4)] c show ?thesis by linarith
    qed
  next
    case (Some r)
    with Cons.prems(1) have a: "sint n \<le> sint (operandIdx d)"
      and b: "verifyLoop n (operandIdx d) ds = Inr ()"
      by (auto simp: Let_def split: if_splits)
    from Some Cons.prems(3,4) have "dep \<in> set ds" by auto
    with Cons.IH [OF b _ _ Cons.prems(4)] a show ?thesis by blast
  qed
qed

lemma verifyLoop_aux_phase:
  "unat n \<le> unat l \<Longrightarrow> unat l + length deps < 2^31 \<Longrightarrow>
   (verifyLoop n l deps = Inr ()) =
   (list_all (\<lambda>d. \<not> isDefUseAttr d) deps \<and>
    map (\<lambda>d. unat (operandIdx d)) deps = [Suc (unat l) ..< Suc (unat l) + length deps])"
proof (induction deps arbitrary: l)
  case Nil
  then show ?case by simp
next
  case (Cons d ds)
  let ?i = "operandIdx d"
  from Cons.prems have l: "unat l < 2^31" and n: "unat n < 2^31" by simp_all
  have sl: "sint l = int (unat l)" and sn: "sint n = int (unat n)"
    using l n by (simp_all only: sint_small)
  have l1: "unat (l + 1) = Suc (unat l)" using l by (rule unat_succ)
  show ?case
  proof (cases "sourceRef d")
    case None
    have "sint n \<le> sint ?i \<or> sint ?i \<le> sint l"
      using sl sn Cons.prems(1) by linarith
    then have "verifyLoop n l (d # ds) \<noteq> Inr ()"
      using None by (auto simp: Let_def)
    then show ?thesis using None by (simp add: isDefUseAttr_def)
  next
    case (Some r)
    have step: "(verifyLoop n l (d # ds) = Inr ()) = (?i = l + 1 \<and> verifyLoop n ?i ds = Inr ())"
    proof (cases "?i = l + 1")
      case True
      then have "unat ?i = Suc (unat l)" using l1 by simp
      then have "unat ?i < 2^31" using Cons.prems(2) by simp
      then have "sint ?i = int (unat ?i)" by (rule sint_small)
      then have "\<not> sint ?i < sint n" using sn \<open>unat ?i = Suc (unat l)\<close> Cons.prems(1) by linarith
      then show ?thesis using Some True by (simp add: Let_def)
    next
      case False
      have "\<not> sint l < sint n" using sl sn Cons.prems(1) by linarith
      then have "\<not> (sint l < sint ?i \<and> ?i = n)" by blast
      then show ?thesis using Some False by (auto simp: Let_def)
    qed
    show ?thesis
    proof (cases "?i = l + 1")
      case True
      then have u: "unat ?i = Suc (unat l)" using l1 by simp
      have "(verifyLoop n ?i ds = Inr ()) =
        (list_all (\<lambda>d. \<not> isDefUseAttr d) ds \<and>
         map (\<lambda>d. unat (operandIdx d)) ds = [Suc (unat ?i) ..< Suc (unat ?i) + length ds])"
        using Cons.prems u by (intro Cons.IH) simp_all
      then show ?thesis using step True Some u
        by (simp add: isDefUseAttr_def upt_conv_Cons del: upt_Suc)
    next
      case False
      then have "unat ?i \<noteq> Suc (unat l)" using l1 by (simp add: word_unat_eq_iff)
      then show ?thesis using step False by (simp add: upt_conv_Cons del: upt_Suc)
    qed
  qed
qed

lemma verifyLoop_defUse_phase:
  "- 1 \<le> sint l \<Longrightarrow> sint l < int (unat n) \<Longrightarrow>
   unat n + length (dropWhile isDefUseAttr deps) < 2^31 \<Longrightarrow>
   (verifyLoop n l deps = Inr ()) =
   (sorted_wrt (<) (map (\<lambda>d. unat (operandIdx d)) (takeWhile isDefUseAttr deps)) \<and>
    list_all (\<lambda>d. sint l < int (unat (operandIdx d)) \<and> unat (operandIdx d) < unat n)
      (takeWhile isDefUseAttr deps) \<and>
    list_all (\<lambda>d. \<not> isDefUseAttr d) (dropWhile isDefUseAttr deps) \<and>
    map (\<lambda>d. unat (operandIdx d)) (dropWhile isDefUseAttr deps) =
      [unat n ..< unat n + length (dropWhile isDefUseAttr deps)])"
proof (induction deps arbitrary: l)
  case Nil
  then show ?case by simp
next
  case (Cons d ds)
  let ?i = "operandIdx d"
  from Cons.prems have n: "unat n < 2^31" by simp
  then have sn: "sint n = int (unat n)" by (rule sint_small)
  show ?case
  proof (cases "sourceRef d")
    case None
    then have du: "isDefUseAttr d" by (simp add: isDefUseAttr_def)
    show ?thesis
    proof (cases "sint l < int (unat ?i) \<and> unat ?i < unat n")
      case True
      then have "unat ?i < 2^31" using n by linarith
      then have si: "sint ?i = int (unat ?i)" by (rule sint_small)
      have step: "verifyLoop n l (d # ds) = verifyLoop n ?i ds"
        using None True si sn by (simp add: Let_def del: of_nat_unat)
      have i1: "- 1 \<le> sint ?i" using True si Cons.prems(1) by linarith
      have i2: "sint ?i < int (unat n)" using True si by linarith
      have i3: "unat n + length (dropWhile isDefUseAttr ds) < 2^31"
        using Cons.prems(3) du by simp
      note ih = Cons.IH [OF i1 i2 i3]
      show ?thesis unfolding step ih using du True si
        by (auto simp: list_all_iff simp del: of_nat_unat)
    next
      case False
      have "sint n \<le> sint ?i \<or> sint ?i \<le> sint l"
      proof (cases "unat ?i < 2^31")
        case True
        then have "sint ?i = int (unat ?i)" by (rule sint_small)
        with False sn show ?thesis by linarith
      next
        case False
        then have "sint ?i < 0" by (rule sint_neg)
        with Cons.prems(1) show ?thesis by linarith
      qed
      then have "verifyLoop n l (d # ds) \<noteq> Inr ()"
        using None by (auto simp: Let_def)
      then show ?thesis using du False by (auto simp del: of_nat_unat)
    qed
  next
    case (Some r)
    then have du: "\<not> isDefUseAttr d" by (simp add: isDefUseAttr_def)
    have step: "(verifyLoop n l (d # ds) = Inr ()) = (?i = n \<and> verifyLoop n n ds = Inr ())"
    proof (cases "?i = n")
      case True
      have "sint l < sint n" using sn Cons.prems(2) by linarith
      then show ?thesis using Some True by (simp add: Let_def)
    next
      case False
      have "?i \<noteq> l + 1" if ge: "sint n \<le> sint ?i"
      proof
        assume eq: "?i = l + 1"
        have "int (unat n) < 2^31"
          using n of_nat_less_iff [of "unat n" "2^31", where 'a=int] by simp
        then have "sint l < 2^31 - 1" using Cons.prems(2) by linarith
        then have "sint (l + 1) = sint l + 1" by (rule sint_succ)
        then have "sint ?i = sint l + 1" unfolding eq .
        with ge Cons.prems(2) sn have "sint ?i = sint n" by linarith
        then have "?i = n" by (simp only: sint_eq_iff_32)
        with False show False by contradiction
      qed
      then show ?thesis using Some False by (auto simp: Let_def)
    qed
    have aux: "(verifyLoop n n ds = Inr ()) =
      (list_all (\<lambda>d. \<not> isDefUseAttr d) ds \<and>
       map (\<lambda>d. unat (operandIdx d)) ds = [Suc (unat n) ..< Suc (unat n) + length ds])"
      using Cons.prems(3) du by (intro verifyLoop_aux_phase) simp_all
    show ?thesis unfolding step aux using du
      by (auto simp: upt_conv_Cons word_unat_eq_iff simp del: upt_Suc)
  qed
qed

lemma unat_getNumOperands_le: "unat (getNumOperands op) \<le> length (operands op)"
  by (simp add: getNumOperands_def unat_of_nat)

lemma unat_getNumOperands: "length (operands op) < 2^31 \<Longrightarrow> unat (getNumOperands op) = length (operands op)"
  by (simp add: getNumOperands_def unat_of_nat)

lemma verify_exampleOperation: "verify exampleOperation = Inr ()"
  by (simp add: verify_def exampleOperation_def getNumOperands_def)

lemma verify_iff_documentInvariant:
  assumes "length (operands op) + length (dropWhile isDefUseAttr (dependenceRecords op)) < 2^31"
  shows "(verify op = Inr ()) = documentInvariant (length (operands op)) (dependenceRecords op)"
proof -
  have n: "unat (getNumOperands op) = length (operands op)"
    using assms by (intro unat_getNumOperands) simp
  have v: "verify op = verifyLoop (getNumOperands op) (- 1) (dependenceRecords op)"
    by (simp add: verify_def dependenceRecords_def split: option.split)
  have p: "(verifyLoop (getNumOperands op) (- 1) (dependenceRecords op) = Inr ()) =
    (sorted_wrt (<) (map (\<lambda>d. unat (operandIdx d)) (takeWhile isDefUseAttr (dependenceRecords op))) \<and>
    list_all (\<lambda>d. sint (- 1 :: 32 word) < int (unat (operandIdx d)) \<and> unat (operandIdx d) < unat (getNumOperands op))
      (takeWhile isDefUseAttr (dependenceRecords op)) \<and>
    list_all (\<lambda>d. \<not> isDefUseAttr d) (dropWhile isDefUseAttr (dependenceRecords op)) \<and>
    map (\<lambda>d. unat (operandIdx d)) (dropWhile isDefUseAttr (dependenceRecords op)) =
      [unat (getNumOperands op) ..< unat (getNumOperands op) + length (dropWhile isDefUseAttr (dependenceRecords op))])"
    using assms n by (intro verifyLoop_defUse_phase) simp_all
  show ?thesis
    unfolding v p n by (simp add: documentInvariant_def Let_def del: of_nat_unat)
qed

text \<open>
  Claim C10. If the dependences attribute of an operation passes \<open>OperationOp::verify\<close>,
  every dependence record without a source name has an operand index (read as
  \<open>unsigned\<close>) strictly below the number of operands of the operation, so the operand
  lookup \<open>getOpOperand\<close> that \<open>loadProblem\<close> performs for the record is in bounds.
\<close>

theorem verified_defUse_index_in_bounds:
  assumes "verify op = Inr ()" and "dep \<in> set (dependenceRecords op)" and "sourceRef dep = None"
  shows "unat (operandIdx dep) < length (operands op) \<and>
         getOpOperand op (operandIdx dep) = Some (operands op ! unat (operandIdx dep))"
proof (cases "dependences op")
  case None
  with assms(2) show ?thesis by (simp add: dependenceRecords_def)
next
  case (Some deps)
  with assms(1) have a: "verifyLoop (getNumOperands op) (- 1) deps = Inr ()"
    by (simp add: verify_def)
  have b: "- 1 \<le> sint (- 1 :: 32 word) \<or> sint (getNumOperands op) \<le> sint (- 1 :: 32 word)"
    by simp
  from Some assms(2) have c: "dep \<in> set deps" by (simp add: dependenceRecords_def)
  have "unat (operandIdx dep) < unat (getNumOperands op)"
    using a b c assms(3) by (rule verifyLoop_defUse_bound)
  then have "unat (operandIdx dep) < length (operands op)"
    using unat_getNumOperands_le [of op] by linarith
  then show ?thesis by (simp add: getOpOperand_def)
qed

theorem verified_defUse_index_in_bounds_witness:
  "verify exampleOperation = Inr () \<and>
   \<lparr>operandIdx = 1, sourceRef = None, depProperties = Some [7]\<rparr> \<in> set (dependenceRecords exampleOperation) \<and>
   getOpOperand exampleOperation 1 = Some (OpResult (OperationRef 1) 0)"
proof -
  let ?d = "\<lparr>operandIdx = 1, sourceRef = None, depProperties = Some [7::nat]\<rparr>"
  have a: "verify exampleOperation = Inr ()" by (rule verify_exampleOperation)
  have b: "?d \<in> set (dependenceRecords exampleOperation)"
    by (simp add: dependenceRecords_def exampleOperation_def)
  have c: "sourceRef ?d = None" by simp
  show ?thesis using a b verified_defUse_index_in_bounds [OF a b c]
    by (simp add: exampleOperation_def)
qed

text \<open>
  Claim C2. \<open>OperationOp::verify\<close> accepts a dependences attribute if and only if it
  satisfies the invariant of the document form: the indices of the records without a
  source name are strictly increasing and below the operand count, the records with a
  source name follow them, and their indices are consecutive and start at the operand
  count; every other sequence is rejected with an error. The operand count and the
  number of records together stay below \<open>2^31\<close>, so that every index the invariant
  allows is a value of the C++ \<open>int\<close> the verifier compares in.
\<close>

theorem verify_accepts_iff_documentInvariant:
  assumes "length (operands op) + length (dependenceRecords op) < 2^31"
  shows "(verify op = Inr ()) = documentInvariant (length (operands op)) (dependenceRecords op) \<and>
         (documentInvariant (length (operands op)) (dependenceRecords op) \<or> (\<exists>e. verify op = Inl e))"
proof -
  have e: "(verify op = Inr ()) = documentInvariant (length (operands op)) (dependenceRecords op)"
  proof (rule verify_iff_documentInvariant)
    have "length (dropWhile isDefUseAttr (dependenceRecords op)) \<le> length (dependenceRecords op)"
      by (rule length_dropWhile_le)
    with assms
    show "length (operands op) + length (dropWhile isDefUseAttr (dependenceRecords op)) < 2^31"
      by linarith
  qed
  have "\<exists>e. verify op = Inl e" if "\<not> documentInvariant (length (operands op)) (dependenceRecords op)"
    using that e by (cases "verify op") auto
  with e show ?thesis by blast
qed

theorem verify_accepts_iff_documentInvariant_witness:
  "length (operands exampleOperation) + length (dependenceRecords exampleOperation) < 2^31 \<and>
   verify exampleOperation = Inr () \<and>
   documentInvariant 2 (dependenceRecords exampleOperation)"
proof -
  have a: "length (operands exampleOperation) + length (dependenceRecords exampleOperation) < 2^31"
    by (simp add: exampleOperation_def dependenceRecords_def)
  have b: "length (operands exampleOperation) = 2" by (simp add: exampleOperation_def)
  show ?thesis
    using a verify_exampleOperation verify_accepts_iff_documentInvariant [OF a] unfolding b
    by simp
qed

section \<open>Properties of the parser\<close>

lemma materializedRecords_Cons:
  "materializedRecords m (e # es) =
     (case materializedRecord m e of None \<Rightarrow> [] | Some r \<Rightarrow> [r]) @ materializedRecords (Suc m) es"
  by (simp add: materializedRecords_def upt_conv_Cons del: upt_Suc split: option.split)

lemma ssaOperands_Cons: "ssaOperands (e # es) = ssaOperands [e] @ ssaOperands es"
  by (simp add: ssaOperands_def split: option.split)

lemma parseDependenceSourceWithAttrDict_ok:
  "fst e \<noteq> NoSource \<Longrightarrow> nextOperandIdx st = of_nat m \<Longrightarrow>
   parseDependenceSourceWithAttrDict e st =
     Inr \<lparr>unresolvedOperands = unresolvedOperands st @ ssaOperands [e],
          parsedDependences = parsedDependences st @
            (case materializedRecord m e of None \<Rightarrow> [] | Some r \<Rightarrow> [r]),
          nextOperandIdx = of_nat (Suc m)\<rparr>"
  by (cases e; cases "fst e"; cases "snd e")
     (simp_all add: parseDependenceSourceWithAttrDict_def ssaOperands_def materializedRecord_def)

lemma parseCommaSeparatedList_ok:
  "list_all (\<lambda>e. fst e \<noteq> NoSource) entries \<Longrightarrow> nextOperandIdx st = of_nat m \<Longrightarrow>
   parseCommaSeparatedList entries st =
     Inr \<lparr>unresolvedOperands = unresolvedOperands st @ ssaOperands entries,
          parsedDependences = parsedDependences st @ materializedRecords m entries,
          nextOperandIdx = of_nat (m + length entries)\<rparr>"
proof (induction entries arbitrary: st m)
  case Nil
  then show ?case by (simp add: ssaOperands_def materializedRecords_def)
next
  case (Cons e es)
  from Cons.prems(1) have src: "fst e \<noteq> NoSource" and rest: "list_all (\<lambda>e. fst e \<noteq> NoSource) es"
    by simp_all
  note step = parseDependenceSourceWithAttrDict_ok [OF src Cons.prems(2)]
  show ?case
    unfolding parseCommaSeparatedList.simps step
    by (simp add: Cons.IH [OF rest, of _ "Suc m"] materializedRecords_Cons ssaOperands_Cons [of e es])
qed

lemma parseDependenceSourceWithAttrDict_error:
  "parseDependenceSourceWithAttrDict e st = Inl x \<Longrightarrow> x = ExpectedSSAValueOrSymbolReference"
  by (cases e; cases "fst e")
     (simp_all add: parseDependenceSourceWithAttrDict_def Let_def)

lemma parseCommaSeparatedList_error:
  "\<not> list_all (\<lambda>e. fst e \<noteq> NoSource) entries \<Longrightarrow>
   parseCommaSeparatedList entries st = Inl ExpectedSSAValueOrSymbolReference"
proof (induction entries arbitrary: st)
  case Nil
  then show ?case by simp
next
  case (Cons e es)
  show ?case
  proof (cases "fst e = NoSource")
    case True
    then show ?thesis by (cases e) (simp add: parseDependenceSourceWithAttrDict_def)
  next
    case False
    with Cons.prems have "\<not> list_all (\<lambda>e. fst e \<noteq> NoSource) es" by simp
    then have "\<And>st. parseCommaSeparatedList es st = Inl ExpectedSSAValueOrSymbolReference"
      by (rule Cons.IH)
    then show ?thesis
      by (auto split: sum.split dest: parseDependenceSourceWithAttrDict_error)
  qed
qed

text \<open>
  Claim C9. Parsing the dependence list adds a record for an entry that references a
  data input only if the entry carries a property list, and always for an entry that is
  a symbol reference; every entry, of either kind, takes one slot index, in the order
  of the list: the records are \<open>materializedRecords 0 entries\<close>, and the attribute is
  absent when there is none. A list with an entry that is neither is an error.
\<close>

theorem parse_materializes_records:
  "parseDependences entries =
     (if list_all (\<lambda>entry. fst entry \<noteq> NoSource) entries
      then Inr (ssaOperands entries,
                if materializedRecords 0 entries = [] then None
                else Some (materializedRecords 0 entries))
      else Inl ExpectedSSAValueOrSymbolReference)"
proof (cases "list_all (\<lambda>entry. fst entry \<noteq> NoSource) entries")
  case True
  have "nextOperandIdx \<lparr>unresolvedOperands = [], parsedDependences = ([] :: 'a DependenceAttr list), nextOperandIdx = 0\<rparr> = of_nat 0"
    by simp
  from parseCommaSeparatedList_ok [OF True this] True show ?thesis
    by (simp add: parseDependences_def)
next
  case False
  then show ?thesis by (simp add: parseDependences_def parseCommaSeparatedList_error)
qed

theorem parse_materializes_records_witness:
  "parseDependences exampleEntries =
     Inr ([''%0'', ''%1''],
          Some [\<lparr>operandIdx = 1, sourceRef = None, depProperties = Some [7]\<rparr>,
                \<lparr>operandIdx = 2, sourceRef = Some ''op0'', depProperties = None\<rparr>,
                \<lparr>operandIdx = 3, sourceRef = Some ''op1'', depProperties = Some [8]\<rparr>])"
  using parse_materializes_records [of exampleEntries]
  by (simp add: exampleEntries_def ssaOperands_def materializedRecords_def materializedRecord_def
        upt_conv_Cons del: upt_Suc)

section \<open>Properties of the property dispatch\<close>

lemma TypeSwitch_Case_find:
  "TypeSwitch_Case kinds prop prob x =
     (case find (\<lambda>kind. classof kind prop) kinds of
        None \<Rightarrow> prob
      | Some kind \<Rightarrow> setInProblem kind prop prob x)"
  by (induction kinds) simp_all

lemma foldl_skip: "foldl (\<lambda>p prop. p) prob props = prob"
  by (induction props) simp_all

lemma loadOperationProperties_find:
  "loadOperationProperties kinds prob op (Some props) =
     foldl (\<lambda>p prop. case find (\<lambda>kind. classof kind prop) kinds of
                        None \<Rightarrow> p
                      | Some kind \<Rightarrow> setInProblem kind prop p op) prob props"
  by (cases kinds) (simp_all add: loadOperationProperties_def foldl_skip TypeSwitch_Case_find)

lemma loadOperatorTypeProperties_find:
  "loadOperatorTypeProperties kinds prob opr (Some props) =
     foldl (\<lambda>p prop. case find (\<lambda>kind. classof kind prop) kinds of
                        None \<Rightarrow> p
                      | Some kind \<Rightarrow> setInProblem kind prop p opr) prob props"
  by (cases kinds) (simp_all add: loadOperatorTypeProperties_def foldl_skip TypeSwitch_Case_find)

lemma loadDependenceProperties_find:
  "loadDependenceProperties kinds prob dep (Some props) =
     foldl (\<lambda>p prop. case find (\<lambda>kind. classof kind prop) kinds of
                        None \<Rightarrow> p
                      | Some kind \<Rightarrow> setInProblem kind prop p dep) prob props"
  by (cases kinds) (simp_all add: loadDependenceProperties_def foldl_skip TypeSwitch_Case_find)

lemma loadInstanceProperties_find:
  "loadInstanceProperties kinds prob (Some props) =
     foldl (\<lambda>p prop. case find (\<lambda>kind. classof kind prop) kinds of
                        None \<Rightarrow> p
                      | Some kind \<Rightarrow> setInProblem kind prop p ()) prob props"
  by (cases kinds) (simp_all add: loadInstanceProperties_def foldl_skip TypeSwitch_Case_find)

lemma foldl_find_filter:
  "foldl (\<lambda>p prop. case find (\<lambda>kind. classof kind prop) kinds of
                        None \<Rightarrow> p
                      | Some kind \<Rightarrow> setInProblem kind prop p x) prob
     (filter (\<lambda>prop. list_ex (\<lambda>kind. classof kind prop) kinds) props) =
   foldl (\<lambda>p prop. case find (\<lambda>kind. classof kind prop) kinds of
                        None \<Rightarrow> p
                      | Some kind \<Rightarrow> setInProblem kind prop p x) prob props"
proof (induction props arbitrary: prob)
  case Nil
  then show ?case by simp
next
  case (Cons a props)
  show ?case
  proof (cases "list_ex (\<lambda>kind. classof kind a) kinds")
    case True
    then show ?thesis using Cons.IH by simp
  next
    case False
    then have "find (\<lambda>kind. classof kind a) kinds = None"
      by (simp add: find_None_iff list_ex_iff)
    with False show ?thesis using Cons.IH by simp
  qed
qed

text \<open>
  Claim C6. When a property sequence is decoded, each value is tested against the kinds
  in the order of the kind list, and only the first kind that accepts it installs it;
  in particular, of two kinds that both accept a value the one listed first is applied.
\<close>

theorem first_match_dispatch:
  "loadOperationProperties kinds prob op (Some props) =
     foldl (\<lambda>p prop. case find (\<lambda>kind. classof kind prop) kinds of
                        None \<Rightarrow> p
                      | Some kind \<Rightarrow> setInProblem kind prop p op) prob props
   \<and> (classof kind1 prop \<longrightarrow>
        loadOperationProperties (kind1 # kind2 # kinds) prob op (Some [prop]) =
          setInProblem kind1 prop prob op)"
  by (simp add: loadOperationProperties_find)

theorem first_match_dispatch_witness:
  "loadOperationProperties
     [\<lparr>classof = (\<lambda>prop. True), setInProblem = (\<lambda>prop prob op. 1), getFromProblem = (\<lambda>prob op. None)\<rparr>,
      \<lparr>classof = (\<lambda>prop. True), setInProblem = (\<lambda>prop prob op. 2), getFromProblem = (\<lambda>prob op. None)\<rparr>]
     (0::nat) (OperationRef 0) (Some [''value'']) = 1
   \<and> loadOperationProperties
     [\<lparr>classof = (\<lambda>prop. True), setInProblem = (\<lambda>prop prob op. 2), getFromProblem = (\<lambda>prob op. None)\<rparr>,
      \<lparr>classof = (\<lambda>prop. True), setInProblem = (\<lambda>prop prob op. 1), getFromProblem = (\<lambda>prob op. None)\<rparr>]
     (0::nat) (OperationRef 0) (Some [''value'']) = 2"
  using first_match_dispatch [of
     "[\<lparr>classof = (\<lambda>prop. True), setInProblem = (\<lambda>prop prob op. 1), getFromProblem = (\<lambda>prob op. None)\<rparr>,
      \<lparr>classof = (\<lambda>prop. True), setInProblem = (\<lambda>prop prob op. 2), getFromProblem = (\<lambda>prob op. None)\<rparr>]"
     "0::nat" "OperationRef 0" "[''value'']"]
    first_match_dispatch [of
     "[\<lparr>classof = (\<lambda>prop. True), setInProblem = (\<lambda>prop prob op. 2), getFromProblem = (\<lambda>prob op. None)\<rparr>,
      \<lparr>classof = (\<lambda>prop. True), setInProblem = (\<lambda>prop prob op. 1), getFromProblem = (\<lambda>prob op. None)\<rparr>]"
     "0::nat" "OperationRef 0" "[''value'']"]
  by simp

text \<open>
  Claim C4, as stated, fails: a value that no recognized kind accepts does not make the
  load fail. Loading \<open>exampleUnrecognized\<close> with the one operation property kind
  \<open>latency\<close> returns the Problem with the operation registered and nothing installed.
\<close>

theorem unrecognized_property_not_fatal:
  "loadProblem [OperationProperty ''latency''] [] [] [] exampleUnrecognized =
     Inr ((Problem_get exampleUnrecognized)\<lparr>operations := [OperationRef 0]\<rparr>)"
  by (simp add: loadProblem_def exampleUnrecognized_def Problem_get_def loadInstanceProperties_def
        walkOperatorTypeOps_def walkOperationOps_def operationOpsWithRefs_def
        insertOperation_def loadOperationProperties_def OperationProperty_def)

text \<open>
  Claim C4, amended. A value that none of the recognized kinds of its attachment point
  accepts is skipped: the loaders (which return a Problem and have no error result)
  give the same Problem as on the sequence without those values.
\<close>

theorem unrecognized_property_is_skipped:
  "loadOperationProperties opKinds prob op (Some props) =
     loadOperationProperties opKinds prob op
       (Some (filter (\<lambda>prop. list_ex (\<lambda>kind. classof kind prop) opKinds) props))
   \<and> loadDependenceProperties depKinds prob dep (Some props) =
     loadDependenceProperties depKinds prob dep
       (Some (filter (\<lambda>prop. list_ex (\<lambda>kind. classof kind prop) depKinds) props))
   \<and> loadOperatorTypeProperties oprKinds prob opr (Some props) =
     loadOperatorTypeProperties oprKinds prob opr
       (Some (filter (\<lambda>prop. list_ex (\<lambda>kind. classof kind prop) oprKinds) props))
   \<and> loadInstanceProperties instKinds prob (Some props) =
     loadInstanceProperties instKinds prob
       (Some (filter (\<lambda>prop. list_ex (\<lambda>kind. classof kind prop) instKinds) props))"
  unfolding loadOperationProperties_find loadDependenceProperties_find
    loadOperatorTypeProperties_find loadInstanceProperties_find foldl_find_filter
  by simp

section \<open>Name references\<close>

lemma verifySymbolUsesLoop_Cons:
  "verifySymbolUsesLoop instOp (dep # deps) =
     (case sourceRef dep of
        None \<Rightarrow> verifySymbolUsesLoop instOp deps
      | Some ref \<Rightarrow>
          if resolvesToOperation instOp ref then verifySymbolUsesLoop instOp deps
          else Inl (InvalidSourceOperation ref))"
  by (simp add: resolvesToOperation_def split: option.split OpRef.split)

lemma verifySymbolUsesLoop_ok:
  "(verifySymbolUsesLoop instOp deps = Inr ()) = list_all (resolvesOrData instOp) deps"
proof (induction deps)
  case Nil
  show ?case by simp
next
  case (Cons d ds)
  show ?case unfolding verifySymbolUsesLoop_Cons
    using Cons.IH by (cases "sourceRef d") (simp_all add: resolvesOrData_def [of instOp d])
qed

lemma verifySymbolUsesLoop_error:
  "verifySymbolUsesLoop instOp deps = Inl e \<Longrightarrow>
   \<exists>ref. e = InvalidSourceOperation ref \<and> \<not> resolvesToOperation instOp ref \<and>
         list_ex (\<lambda>dep. sourceRef dep = Some ref) deps"
proof (induction deps)
  case Nil
  then show ?case by simp
next
  case (Cons d ds)
  show ?case
  proof (cases "sourceRef d")
    case None
    with Cons.prems have "verifySymbolUsesLoop instOp ds = Inl e"
      unfolding verifySymbolUsesLoop_Cons by simp
    from Cons.IH [OF this] show ?thesis by auto
  next
    case (Some r)
    show ?thesis
    proof (cases "resolvesToOperation instOp r")
      case True
      with Some Cons.prems have "verifySymbolUsesLoop instOp ds = Inl e"
        unfolding verifySymbolUsesLoop_Cons by simp
      from Cons.IH [OF this] show ?thesis by auto
    next
      case False
      with Some Cons.prems have "e = InvalidSourceOperation r"
        unfolding verifySymbolUsesLoop_Cons by simp
      with False Some show ?thesis by auto
    qed
  qed
qed

lemma loadDependence_unresolved:
  "sourceRef dep = Some ref \<Longrightarrow> lookupSymbolIn instOp ref = None \<Longrightarrow>
   loadDependence depKinds instOp opRef opOp prob dep = Inl (AssertionFailed ''sourceOp'')"
  by (simp add: loadDependence_def)

lemma loadDependenceAttrs_unresolved:
  "dep \<in> set deps \<Longrightarrow> sourceRef dep = Some ref \<Longrightarrow> lookupSymbolIn instOp ref = None \<Longrightarrow>
   \<exists>e. loadDependenceAttrs depKinds instOp opRef opOp deps prob = Inl e"
proof (induction deps arbitrary: prob)
  case Nil
  then show ?case by simp
next
  case (Cons d ds)
  show ?case
  proof (cases "loadDependence depKinds instOp opRef opOp prob d")
    case (Inl e)
    then show ?thesis by simp
  next
    case (Inr prob')
    with Cons.prems loadDependence_unresolved [of dep ref instOp depKinds opRef opOp prob]
    have "dep \<in> set ds" by auto
    from Cons.IH [OF this Cons.prems(2,3)] Inr show ?thesis by simp
  qed
qed

lemma loadDependencesWalk_unresolved:
  "(opRef, opOp) \<in> set ops \<Longrightarrow> dep \<in> set (dependenceRecords opOp) \<Longrightarrow>
   sourceRef dep = Some ref \<Longrightarrow> lookupSymbolIn instOp ref = None \<Longrightarrow>
   \<exists>e. loadDependencesWalk depKinds instOp ops prob = Inl e"
proof (induction ops arbitrary: prob)
  case Nil
  then show ?case by simp
next
  case (Cons p ps)
  obtain r o' where p: "p = (r, o')" by (cases p)
  show ?case
  proof (cases "p = (opRef, opOp)")
    case True
    with p have eq: "r = opRef" "o' = opOp" by simp_all
    from Cons.prems(2) obtain deps where d: "dependences opOp = Some deps" "dep \<in> set deps"
      by (cases "dependences opOp") (auto simp: dependenceRecords_def)
    from loadDependenceAttrs_unresolved [OF d(2) Cons.prems(3,4)]
    obtain e where "loadDependenceAttrs depKinds instOp opRef opOp deps prob = Inl e" by blast
    then show ?thesis using p eq d(1) by simp
  next
    case False
    with Cons.prems(1) have "(opRef, opOp) \<in> set ps" by simp
    from Cons.IH [OF this Cons.prems(2,3,4)] show ?thesis
      unfolding p by (auto split: option.split sum.split)
  qed
qed

lemma operationOpsWithRefs_mem:
  "opOp \<in> set (walkOperationOps instOp) \<Longrightarrow> \<exists>k. (OperationRef k, opOp) \<in> set (operationOpsWithRefs instOp)"
proof -
  assume "opOp \<in> set (walkOperationOps instOp)"
  then obtain k where k: "k < length (walkOperationOps instOp)" "walkOperationOps instOp ! k = opOp"
    by (auto simp: in_set_conv_nth)
  then have "(OperationRef k, opOp) \<in> set (operationOpsWithRefs instOp)"
    unfolding operationOpsWithRefs_def in_set_zip by (intro exI [of _ k]) simp
  then show ?thesis ..
qed

lemma loadProblem_unresolved:
  assumes "opOp \<in> set (walkOperationOps instOp)" and "dep \<in> set (dependenceRecords opOp)"
    and "sourceRef dep = Some ref" and "lookupSymbolIn instOp ref = None"
  shows "\<exists>e. loadProblem opKinds oprKinds depKinds instKinds instOp = Inl e"
proof -
  from operationOpsWithRefs_mem [OF assms(1)] obtain k
    where "(OperationRef k, opOp) \<in> set (operationOpsWithRefs instOp)" ..
  from loadDependencesWalk_unresolved [OF this assms(2,3,4)] show ?thesis
    by (simp add: loadProblem_def Let_def)
qed

text \<open>
  Claim C7. A source name of a dependence record has to resolve, in the enclosing
  instance, to an operation. If one does not (nothing has the name, or what has it is
  not an \<open>OperationOp\<close>), validation (\<open>verifySymbolUses\<close>) fails with an error that
  carries an offending reference of the operation; and loading an instance with a
  reference that nothing resolves fails (the \<open>assert\<close> on the looked-up source) and
  returns no Problem.
\<close>

theorem reference_errors_are_fatal:
  assumes "opOp \<in> set (walkOperationOps instOp)" and "dep \<in> set (dependenceRecords opOp)"
    and "sourceRef dep = Some ref" and "\<not> resolvesToOperation instOp ref"
  shows "(\<exists>ref'. verifySymbolUses instOp opOp = Inl (InvalidSourceOperation ref') \<and>
            \<not> resolvesToOperation instOp ref' \<and>
            list_ex (\<lambda>dep'. sourceRef dep' = Some ref') (dependenceRecords opOp)) \<and>
         (lookupSymbolIn instOp ref = None \<longrightarrow>
            (\<exists>e. loadProblem opKinds oprKinds depKinds instKinds instOp = Inl e))"
proof -
  have v: "verifySymbolUses instOp opOp = verifySymbolUsesLoop instOp (dependenceRecords opOp)"
    by (simp add: verifySymbolUses_def dependenceRecords_def split: option.split)
  have "\<not> resolvesOrData instOp dep"
    using assms(3,4) by (simp add: resolvesOrData_def)
  with assms(2) have "\<not> list_all (resolvesOrData instOp) (dependenceRecords opOp)"
    by (auto simp: list_all_iff)
  then have "verifySymbolUsesLoop instOp (dependenceRecords opOp) \<noteq> Inr ()"
    by (simp add: verifySymbolUsesLoop_ok)
  then obtain e where e: "verifySymbolUsesLoop instOp (dependenceRecords opOp) = Inl e"
    by (cases "verifySymbolUsesLoop instOp (dependenceRecords opOp)") auto
  from verifySymbolUsesLoop_error [OF e] e v
  have a: "\<exists>ref'. verifySymbolUses instOp opOp = Inl (InvalidSourceOperation ref') \<and>
            \<not> resolvesToOperation instOp ref' \<and>
            list_ex (\<lambda>dep'. sourceRef dep' = Some ref') (dependenceRecords opOp)"
    by auto
  have "\<exists>e. loadProblem opKinds oprKinds depKinds instKinds instOp = Inl e"
    if "lookupSymbolIn instOp ref = None"
    using assms(1,2,3) that by (rule loadProblem_unresolved)
  with a show ?thesis by blast
qed


theorem reference_errors_are_fatal_witness:
  "verifySymbolUses exampleDangling danglingOperation = Inl (InvalidSourceOperation ''missing'') \<and>
   lookupSymbolIn exampleDangling ''missing'' = None \<and>
   loadProblem [] [] [] [] exampleDangling = Inl (AssertionFailed ''sourceOp'')"
proof -
  let ?dep = "\<lparr>operandIdx = 1, sourceRef = Some ''missing'', depProperties = None :: nat list option\<rparr>"
  have a: "danglingOperation \<in> set (walkOperationOps exampleDangling)"
    by (simp add: exampleDangling_def walkOperationOps_def)
  have b: "?dep \<in> set (dependenceRecords danglingOperation)"
    by (simp add: dependenceRecords_def danglingOperation_def)
  have c: "sourceRef ?dep = Some ''missing''" by simp
  have l: "lookupSymbolIn exampleDangling ''missing'' = None"
    by (simp add: lookupSymbolIn_def exampleDangling_def danglingOperation_def)
  have d: "\<not> resolvesToOperation exampleDangling ''missing''"
    by (simp add: resolvesToOperation_def l)
  have v: "verifySymbolUses exampleDangling danglingOperation = Inl (InvalidSourceOperation ''missing'')"
    by (simp add: verifySymbolUses_def danglingOperation_def lookupSymbolIn_def exampleDangling_def)
  have w: "loadProblem [] [] [] [] exampleDangling = Inl (AssertionFailed ''sourceOp'')"
    by (simp add: loadProblem_def exampleDangling_def danglingOperation_def Problem_get_def
          loadInstanceProperties_def walkOperatorTypeOps_def walkOperationOps_def
          operationOpsWithRefs_def insertOperatorType_def loadOperatorTypeProperties_def
          insertOperation_def loadOperationProperties_def loadDependence_def lookupSymbolIn_def
          insertDependence_def getSource_def getDestination_def loadDependenceProperties_def
          upt_conv_Cons del: upt_Suc)
  show ?thesis
    using reference_errors_are_fatal [OF a b c d, of "[]" "[]" "[]" "[]"] v l w by simp
qed

section \<open>Which dependences the loader inserts\<close>

























section \<open>The names saveProblem assigns\<close>

declare decimal.simps [simp del]

lemma decimal_small: "n < 10 \<Longrightarrow> decimal n = [digitChar n]"
  by (subst decimal.simps) simp

lemma decimal_large: "\<not> n < 10 \<Longrightarrow> decimal n = decimal (n div 10) @ [digitChar (n mod 10)]"
  by (subst decimal.simps) simp

lemma decimal_nonempty: "decimal n \<noteq> []"
  by (cases "n < 10") (simp_all add: decimal_small decimal_large)

lemma digitChar_inj: "a < 10 \<Longrightarrow> b < 10 \<Longrightarrow> digitChar a = digitChar b \<Longrightarrow> a = b"
proof -
  assume a: "a < 10" and b: "b < 10" and e: "digitChar a = digitChar b"
  from e have "(of_char (char_of (48 + a) :: char) :: nat) = of_char (char_of (48 + b) :: char)"
    by (simp add: digitChar_def)
  then have "(48 + a) mod 256 = (48 + b) mod 256" by (simp only: of_char_of)
  with a b show ?thesis by simp
qed

lemma decimal_inj: "decimal n = decimal m \<Longrightarrow> n = m"
proof (induction n arbitrary: m rule: decimal.induct)
  case (1 n)
  show ?case
  proof (cases "n < 10")
    case True
    then have n: "decimal n = [digitChar n]" by (rule decimal_small)
    have m: "m < 10"
    proof (rule ccontr)
      assume "\<not> m < 10"
      then have "decimal m = decimal (m div 10) @ [digitChar (m mod 10)]" by (rule decimal_large)
      with n "1.prems" decimal_nonempty [of "m div 10"] show False by simp
    qed
    then have "decimal m = [digitChar m]" by (rule decimal_small)
    with n "1.prems" have "digitChar n = digitChar m" by simp
    with True m show ?thesis by (rule digitChar_inj)
  next
    case False
    then have n: "decimal n = decimal (n div 10) @ [digitChar (n mod 10)]" by (rule decimal_large)
    have m: "\<not> m < 10"
    proof
      assume "m < 10"
      then have "decimal m = [digitChar m]" by (rule decimal_small)
      with n "1.prems" decimal_nonempty [of "n div 10"] show False by simp
    qed
    then have "decimal m = decimal (m div 10) @ [digitChar (m mod 10)]" by (rule decimal_large)
    with n "1.prems" have d: "decimal (n div 10) = decimal (m div 10)"
      and c: "digitChar (n mod 10) = digitChar (m mod 10)" by simp_all
    from "1.IH" [OF False d] have "n div 10 = m div 10" .
    moreover from c have "n mod 10 = m mod 10" by (intro digitChar_inj) simp_all
    ultimately show ?thesis by (metis div_mult_mod_eq)
  qed
qed

lemma DenseMap_set_absent: "map_of m k = None \<Longrightarrow> DenseMap_set m k v = m @ [(k, v)]"
  by (induction m) (auto split: if_splits)

lemma DenseMap_set_present:
  "distinct (map fst m) \<Longrightarrow> (k, v) \<in> set m \<Longrightarrow> DenseMap_set m k v = m"
  by (induction m) (auto simp: rev_image_eqI)

lemma namedBelow_mono: "namedBelow f b entry \<Longrightarrow> b \<le> b' \<Longrightarrow> namedBelow f b' entry"
  by (cases "f (fst entry)") (auto simp: namedBelow_def intro: less_le_trans simp del: append.simps)

lemma list_all_namedBelow_Suc:
  "list_all (namedBelow f b) m \<Longrightarrow> list_all (namedBelow f (Suc b)) m"
  unfolding list_all_iff by (blast intro: namedBelow_mono le_SucI)

lemma namesInvariant_Nil: "namesInvariant f []"
  by (simp add: namesInvariant_def synthesized_def)

lemma namesInvariant_provided:
  assumes "namesInvariant f m" and "f op = Some n"
  shows "namesInvariant f (DenseMap_set m op n)"
proof (cases "map_of m op")
  case None
  then have e: "DenseMap_set m op n = m @ [(op, n)]" by (rule DenseMap_set_absent)
  from None have k: "op \<notin> fst ` set m" by (simp add: map_of_eq_None_iff)
  have s: "synthesized f (m @ [(op, n)]) = synthesized f m"
    using assms(2) by (simp add: synthesized_def)
  have "namedBelow f (Suc (length m)) (op, n)"
    using assms(2) by (simp add: namedBelow_def)
  moreover have "list_all (namedBelow f (Suc (length m))) m"
    using assms(1) by (intro list_all_namedBelow_Suc) (simp add: namesInvariant_def)
  ultimately show ?thesis
    unfolding e namesInvariant_def s using assms(1) k
    by (simp add: namesInvariant_def)
next
  case (Some n0)
  then have i: "(op, n0) \<in> set m" by (rule map_of_SomeD)
  from assms(1) have "list_all (namedBelow f (length m)) m" by (simp add: namesInvariant_def)
  with i have "namedBelow f (length m) (op, n0)" by (auto simp: list_all_iff)
  with assms(2) have "n0 = n" by (simp add: namedBelow_def)
  with i assms(1) have "DenseMap_set m op n = m"
    by (intro DenseMap_set_present) (simp_all add: namesInvariant_def)
  with assms(1) show ?thesis by simp
qed

lemma namesInvariant_synthesized:
  assumes "namesInvariant f m" and "map_of m src = None" and "f src = None"
  shows "namesInvariant f (DenseMap_set m src (''Op'' @ decimal (length m)))"
proof -
  let ?name = "''Op'' @ decimal (length m)"
  have e: "DenseMap_set m src ?name = m @ [(src, ?name)]"
    using assms(2) by (rule DenseMap_set_absent)
  have k: "src \<notin> fst ` set m" using assms(2) by (simp add: map_of_eq_None_iff)
  have all: "list_all (namedBelow f (length m)) m" using assms(1) by (simp add: namesInvariant_def)
  have fresh: "?name \<notin> snd ` set (synthesized f m)"
  proof
    assume "?name \<in> snd ` set (synthesized f m)"
    then obtain op where i: "(op, ?name) \<in> set m" and n: "f op = None"
      by (auto simp: synthesized_def)
    from all i have "namedBelow f (length m) (op, ?name)" by (auto simp: list_all_iff)
    with n obtain k where "k < length m" "?name = ''Op'' @ decimal k"
      by (auto simp: namedBelow_def)
    then show False using decimal_inj [of "length m" k] by simp
  qed
  have s: "synthesized f (m @ [(src, ?name)]) = synthesized f m @ [(src, ?name)]"
    using assms(3) by (simp add: synthesized_def)
  have "namedBelow f (Suc (length m)) (src, ?name)"
    unfolding namedBelow_def using assms(3) by (simp del: append.simps) blast
  moreover have "list_all (namedBelow f (Suc (length m))) m"
    using all by (rule list_all_namedBelow_Suc)
  ultimately show ?thesis
    unfolding e namesInvariant_def s using assms(1) k fresh
    by (simp add: namesInvariant_def del: append.simps)
qed

lemma namesInvariant_nameDependence:
  "namesInvariant f m \<Longrightarrow> namesInvariant f (nameDependence f m dep)"
  by (cases dep)
     (auto simp: nameDependence_def namesInvariant_provided namesInvariant_synthesized
           simp del: append.simps split: option.splits)

lemma namesInvariant_foldl_nameDependence:
  "namesInvariant f m \<Longrightarrow> namesInvariant f (foldl (nameDependence f) m deps)"
  by (induction deps arbitrary: m) (simp_all add: namesInvariant_nameDependence)

lemma namesInvariant_nameOperation:
  "namesInvariant f m \<Longrightarrow> namesInvariant f (nameOperation f prob m op)"
  unfolding nameOperation_def
  by (intro namesInvariant_foldl_nameDependence)
     (simp add: namesInvariant_provided split: option.split)

lemma namesInvariant_foldl_nameOperation:
  "namesInvariant f m \<Longrightarrow> namesInvariant f (foldl (nameOperation f prob) m ops)"
  by (induction ops arbitrary: m) (simp_all add: namesInvariant_nameOperation)

lemma namesInvariant_assignNames: "namesInvariant f (assignNames f prob)"
  unfolding assignNames_def
  by (intro namesInvariant_foldl_nameOperation namesInvariant_Nil)

lemma keys_DenseMap_set: "fst ` set (DenseMap_set m k v) = insert k (fst ` set m)"
proof (induction m)
  case Nil
  show ?case by simp
next
  case (Cons a m)
  obtain k' v' where a: "a = (k', v')" by (cases a)
  show ?case unfolding a using Cons.IH by (cases "k' = k") auto
qed

lemma keys_nameDependence:
  "fst ` set (nameDependence f m dep) =
     fst ` set m \<union> (case dep of DefUse op i \<Rightarrow> {} | Auxiliary src dst \<Rightarrow> {src})"
  by (cases dep)
     (auto simp: nameDependence_def keys_DenseMap_set map_of_eq_None_iff split: option.splits)

lemma keys_foldl_nameDependence:
  "fst ` set (foldl (nameDependence f) m deps) =
     fst ` set m \<union> {src. \<exists>dst. Auxiliary src dst \<in> set deps}"
proof (induction deps arbitrary: m)
  case Nil
  show ?case by simp
next
  case (Cons d ds)
  show ?case
    unfolding foldl_Cons Cons.IH keys_nameDependence
    by (cases d) auto
qed

lemma keys_nameOperation:
  "fst ` set (nameOperation f prob m op) =
     fst ` set m \<union> (if f op = None then {} else {op}) \<union>
     {src. \<exists>dst. Auxiliary src dst \<in> set (getDependences prob op)}"
  unfolding nameOperation_def keys_foldl_nameDependence
  by (auto simp: keys_DenseMap_set split: option.splits)

lemma keys_foldl_nameOperation:
  "fst ` set (foldl (nameOperation f prob) m ops) =
     fst ` set m \<union> {op \<in> set ops. f op \<noteq> None} \<union>
     {src. \<exists>op \<in> set ops. \<exists>dst. Auxiliary src dst \<in> set (getDependences prob op)}"
proof (induction ops arbitrary: m)
  case Nil
  show ?case by simp
next
  case (Cons a ops)
  show ?case
    unfolding foldl_Cons Cons.IH keys_nameOperation by auto
qed

lemma keys_assignNames:
  "fst ` set (assignNames f prob) =
     {op \<in> set (operations prob). f op \<noteq> None} \<union> auxiliarySources prob"
  unfolding assignNames_def keys_foldl_nameOperation auxiliarySources_def by simp

lemma synthesized_form:
  "list_all (\<lambda>entry. \<exists>k < length (assignNames f prob). snd entry = ''Op'' @ decimal k)
     (synthesized f (assignNames f prob))"
proof -
  have "list_all (namedBelow f (length (assignNames f prob))) (assignNames f prob)"
    using namesInvariant_assignNames [of f prob] by (simp add: namesInvariant_def)
  then show ?thesis
    unfolding list_all_iff synthesized_def
    by (auto simp: namedBelow_def simp del: append.simps)
qed

lemma saveOperations_names:
  "saveOperations opKinds depKinds prob opNames ops = Inr opOps \<Longrightarrow>
   map sym_name opOps = map (map_of opNames) ops"
proof (induction ops arbitrary: opOps)
  case Nil
  then show ?case by simp
next
  case (Cons op ops)
  from Cons.prems obtain opOp rest where
    a: "saveOperation opKinds depKinds prob opNames op = Inr opOp" and
    b: "saveOperations opKinds depKinds prob opNames ops = Inr rest" and
    c: "opOps = opOp # rest"
    by (auto split: sum.splits)
  from a have "sym_name opOp = map_of opNames op"
    by (auto simp: saveOperation_def split: sum.splits)
  with Cons.IH [OF b] c show ?case by simp
qed

lemma walkOperationOps_saved:
  "body instOp = map OperatorTypeBodyOp oprOps @ map OperationBodyOp opOps \<Longrightarrow>
   walkOperationOps instOp = opOps"
  by (simp add: walkOperationOps_def List.map_filter_def filter_map comp_def)

lemma saveProblem_names:
  assumes "saveProblem opKinds oprKinds depKinds instKinds prob instName probName f = Inr instOp"
  shows "map sym_name (walkOperationOps instOp) = map (map_of (assignNames f prob)) (operations prob)"
proof -
  from assms obtain opOps where
    s: "saveOperations opKinds depKinds prob (assignNames f prob) (operations prob) = Inr opOps"
    and b: "body instOp =
      map OperatorTypeBodyOp
        (map (\<lambda>opr. \<lparr>oprName = opr, oprProperties = saveOperatorTypeProperties oprKinds prob opr\<rparr>)
           (operatorTypes prob)) @ map OperationBodyOp opOps"
    by (auto simp: saveProblem_def Let_def split: sum.splits)
  from b have "walkOperationOps instOp = opOps" by (rule walkOperationOps_saved)
  with saveOperations_names [OF s] show ?thesis by simp
qed

text \<open>
  What the first loop of \<open>saveProblem\<close> does establish: the operations that are sources of
  auxiliary dependences and get no name from the caller's function receive pairwise
  distinct synthesized names, one each, and a synthesized name differs from every recorded
  caller-supplied name that is not itself \<open>Op\<close> followed by a decimal numeral. The names
  of the saved operations are those of the table.
\<close>

lemma synthesized_names_distinct_among_themselves:
  "distinct (map snd (synthesized f (assignNames f prob))) \<and>
   fst ` set (synthesized f (assignNames f prob)) = {src \<in> auxiliarySources prob. f src = None} \<and>
   length (synthesized f (assignNames f prob)) = card {src \<in> auxiliarySources prob. f src = None} \<and>
   (list_all (\<lambda>entry. \<forall>k. snd entry \<noteq> ''Op'' @ decimal k) (provided f (assignNames f prob)) \<longrightarrow>
      set (map snd (synthesized f (assignNames f prob))) \<inter>
      set (map snd (provided f (assignNames f prob))) = {}) \<and>
   (\<forall>instOp. saveProblem opKinds oprKinds depKinds instKinds prob instName probName f = Inr instOp \<longrightarrow>
      map sym_name (walkOperationOps instOp) = map (map_of (assignNames f prob)) (operations prob))"
proof -
  let ?names = "assignNames f prob"
  have inv: "namesInvariant f ?names" by (rule namesInvariant_assignNames)
  then have a: "distinct (map snd (synthesized f ?names))" by (simp add: namesInvariant_def)
  have "fst ` set (synthesized f ?names) = {k \<in> fst ` set ?names. f k = None}"
    unfolding synthesized_def by force
  then have b: "fst ` set (synthesized f ?names) = {src \<in> auxiliarySources prob. f src = None}"
    unfolding keys_assignNames by auto
  from inv have "distinct (map fst ?names)" by (simp add: namesInvariant_def)
  then have "distinct (map fst (synthesized f ?names))"
    unfolding synthesized_def by (rule distinct_map_filter)
  then have "card (set (map fst (synthesized f ?names))) = length (map fst (synthesized f ?names))"
    by (rule distinct_card)
  with b have c: "length (synthesized f ?names) = card {src \<in> auxiliarySources prob. f src = None}"
    by simp
  have d: "set (map snd (synthesized f ?names)) \<inter> set (map snd (provided f ?names)) = {}"
    if h: "list_all (\<lambda>entry. \<forall>k. snd entry \<noteq> ''Op'' @ decimal k) (provided f ?names)"
  proof (rule ccontr)
    assume "set (map snd (synthesized f ?names)) \<inter> set (map snd (provided f ?names)) \<noteq> {}"
    then obtain e1 e2 where e1: "e1 \<in> set (synthesized f ?names)"
      and e2: "e2 \<in> set (provided f ?names)" and eq: "snd e1 = snd e2"
      by auto
    from synthesized_form [of f prob] e1 obtain k where "snd e1 = ''Op'' @ decimal k"
      unfolding list_all_iff by blast
    moreover from h e2 have "snd e2 \<noteq> ''Op'' @ decimal k"
      unfolding list_all_iff by blast
    ultimately show False using eq by simp
  qed
  have e: "\<forall>instOp. saveProblem opKinds oprKinds depKinds instKinds prob instName probName f = Inr instOp \<longrightarrow>
      map sym_name (walkOperationOps instOp) = map (map_of (assignNames f prob)) (operations prob)"
    by (intro allI impI) (rule saveProblem_names)
  show ?thesis
  proof (intro conjI)
    show "distinct (map snd (synthesized f ?names))" by (rule a)
    show "fst ` set (synthesized f ?names) = {src \<in> auxiliarySources prob. f src = None}" by (rule b)
    show "length (synthesized f ?names) = card {src \<in> auxiliarySources prob. f src = None}" by (rule c)
    show "list_all (\<lambda>entry. \<forall>k. snd entry \<noteq> ''Op'' @ decimal k) (provided f ?names) \<longrightarrow>
      set (map snd (synthesized f ?names)) \<inter> set (map snd (provided f ?names)) = {}"
      using d by blast
    show "\<forall>instOp. saveProblem opKinds oprKinds depKinds instKinds prob instName probName f = Inr instOp \<longrightarrow>
      map sym_name (walkOperationOps instOp) = map (map_of (assignNames f prob)) (operations prob)"
      by (rule e)
  qed
qed

text \<open>
  Claim C3 (name synthesis uniqueness: no synthesized name collides with a caller-supplied
  name used in the same save call) is not kept by the code. The synthesized name is \<open>Op\<close>
  followed by the size of the table, and it is entered without being compared with the
  names the table already holds. With \<open>exampleNameClash\<close> and a caller who names the
  dependent operation \<open>Op1\<close>, the table holds that one name when the unnamed source is
  reached, its size is 1, and the source is called \<open>Op1\<close> as well: the saved instance has
  two operations with the symbol name \<open>Op1\<close>.
\<close>

theorem synthesized_name_collides_with_provided_name:
  "assignNames clashNameFn (projr (loadProblem [] [] [] [] exampleNameClash)) =
     [(OperationRef 1, ''Op1''), (OperationRef 0, ''Op1'')]
   \<and> map_sum id (\<lambda>instOp. map sym_name (walkOperationOps instOp))
       (saveProblem [] [] [] [] (projr (loadProblem [] [] [] [] exampleNameClash))
          ''clash'' ''Problem'' clashNameFn) =
     Inr [Some ''Op1'', Some ''Op1'']
   \<and> provided clashNameFn (assignNames clashNameFn (projr (loadProblem [] [] [] [] exampleNameClash))) =
     [(OperationRef 1, ''Op1'')]
   \<and> synthesized clashNameFn (assignNames clashNameFn (projr (loadProblem [] [] [] [] exampleNameClash))) =
     [(OperationRef 0, ''Op1'')]"
  by code_simp

section \<open>The dependence records saveProblem emits\<close>

lemma map_filter_upt_Suc:
  "List.map_filter f [0 ..< Suc n] =
     (case f 0 of None \<Rightarrow> [] | Some r \<Rightarrow> [r]) @ List.map_filter (\<lambda>k. f (Suc k)) [0 ..< n]"
proof -
  have "[0 ..< Suc n] = 0 # map Suc [0 ..< n]"
    by (simp add: upt_conv_Cons map_Suc_upt del: upt_Suc)
  then show ?thesis
    by (simp add: List.map_filter_def comp_def filter_map del: upt_Suc split: option.split)
qed

lemma auxiliaryBefore_0: "auxiliaryBefore deps 0 = 0"
  by (simp add: auxiliaryBefore_def)

lemma auxiliaryBefore_Suc:
  "auxiliaryBefore (d # deps) (Suc k) = (if isAuxiliary d then 1 else 0) + auxiliaryBefore deps k"
  by (simp add: auxiliaryBefore_def)

lemma emittedRecords_Nil: "emittedRecords depKinds prob opNames n [] = []"
  by (simp add: emittedRecords_def List.map_filter_def)

lemma emittedRecords_Cons:
  "emittedRecords depKinds prob opNames n (d # deps) =
     (case emittedRecord depKinds prob opNames n d of None \<Rightarrow> [] | Some r \<Rightarrow> [r]) @
     emittedRecords depKinds prob opNames (if isAuxiliary d then n + 1 else n) deps"
  unfolding emittedRecords_def length_Cons map_filter_upt_Suc
  by (simp add: auxiliaryBefore_0 auxiliaryBefore_Suc add.assoc del: upt_Suc)

lemma saveDependences_records:
  "saveDependences depKinds prob opNames deps depAttrs auxOperandIdx = Inr records \<Longrightarrow>
   records = depAttrs @ emittedRecords depKinds prob opNames auxOperandIdx deps"
proof (induction deps arbitrary: depAttrs auxOperandIdx)
  case Nil
  then show ?case by (simp add: emittedRecords_Nil)
next
  case (Cons d ds)
  show ?case
  proof (cases d)
    case (DefUse op i)
    show ?thesis
    proof (cases "saveDependenceProperties depKinds prob d")
      case None
      with Cons.prems DefUse
      have "saveDependences depKinds prob opNames ds depAttrs auxOperandIdx = Inr records"
        by (simp add: Let_def)
      from Cons.IH [OF this] None DefUse show ?thesis
        by (simp add: emittedRecords_Cons emittedRecord_def isAuxiliary_def)
    next
      case (Some ps)
      with Cons.prems DefUse
      have "saveDependences depKinds prob opNames ds
              (depAttrs @ [\<lparr>operandIdx = of_nat i, sourceRef = None, depProperties = Some ps\<rparr>])
              auxOperandIdx = Inr records"
        by (simp add: Let_def)
      from Cons.IH [OF this] Some DefUse show ?thesis
        by (simp add: emittedRecords_Cons emittedRecord_def isAuxiliary_def)
    qed
  next
    case (Auxiliary src dst)
    with Cons.prems obtain name where n: "map_of opNames src = Some name"
      by (cases "map_of opNames src") (simp_all add: Let_def)
    with Cons.prems Auxiliary
    have "saveDependences depKinds prob opNames ds
            (depAttrs @ [\<lparr>operandIdx = auxOperandIdx, sourceRef = Some name,
                          depProperties = saveDependenceProperties depKinds prob d\<rparr>])
            (auxOperandIdx + 1) = Inr records"
      by (simp add: Let_def)
    from Cons.IH [OF this] n Auxiliary show ?thesis
      by (simp add: emittedRecords_Cons emittedRecord_def isAuxiliary_def)
  qed
qed

lemma saveDependences_named:
  "saveDependences depKinds prob opNames deps depAttrs auxOperandIdx = Inr records \<Longrightarrow>
   Auxiliary src dst \<in> set deps \<Longrightarrow> map_of opNames src \<noteq> None"
proof (induction deps arbitrary: depAttrs auxOperandIdx)
  case Nil
  then show ?case by simp
next
  case (Cons d ds)
  show ?case
  proof (cases d)
    case (DefUse op i)
    with Cons.prems(2) have m: "Auxiliary src dst \<in> set ds" by simp
    from Cons.prems(1) DefUse obtain attrs where
      "saveDependences depKinds prob opNames ds attrs auxOperandIdx = Inr records"
      by (cases "saveDependenceProperties depKinds prob d") (simp_all add: Let_def)
    from Cons.IH [OF this m] show ?thesis .
  next
    case (Auxiliary src' dst')
    with Cons.prems(1) obtain name where n: "map_of opNames src' = Some name"
      by (cases "map_of opNames src'") (simp_all add: Let_def)
    show ?thesis
    proof (cases "Auxiliary src dst = d")
      case True
      with Auxiliary n show ?thesis by simp
    next
      case False
      with Cons.prems(2) have m: "Auxiliary src dst \<in> set ds" by auto
      from Cons.prems(1) Auxiliary n obtain attrs where
        "saveDependences depKinds prob opNames ds attrs (auxOperandIdx + 1) = Inr records"
        by (simp add: Let_def)
      from Cons.IH [OF this m] show ?thesis .
    qed
  qed
qed

lemma emittedRecords_append:
  "emittedRecords depKinds prob opNames n (xs @ ys) =
     emittedRecords depKinds prob opNames n xs @
     emittedRecords depKinds prob opNames (n + of_nat (length (filter isAuxiliary xs))) ys"
  by (induction xs arbitrary: n) (simp_all add: emittedRecords_Nil emittedRecords_Cons add.assoc)

lemma emittedRecords_DefUse:
  "list_all (\<lambda>i. i < 2^32) is \<Longrightarrow>
   list_all isDefUseAttr (emittedRecords depKinds prob opNames n (map (DefUse op) is)) \<and>
   map (\<lambda>d. unat (operandIdx d)) (emittedRecords depKinds prob opNames n (map (DefUse op) is)) =
     filter (\<lambda>i. saveDependenceProperties depKinds prob (DefUse op i) \<noteq> None) is"
proof (induction "is")
  case Nil
  show ?case by (simp add: emittedRecords_Nil)
next
  case (Cons i "is")
  then have "unat (of_nat i :: 32 word) = i" by (simp add: unat_of_nat)
  with Cons show ?case
    by (cases "saveDependenceProperties depKinds prob (DefUse op i)")
       (simp_all add: emittedRecords_Cons emittedRecord_def isAuxiliary_def isDefUseAttr_def)
qed

lemma emittedRecords_Auxiliary:
  "list_all isAuxiliary auxs \<Longrightarrow>
   list_all (sourceNamed opNames) auxs \<Longrightarrow>
   unat n + length auxs < 2^32 \<Longrightarrow>
   length (emittedRecords depKinds prob opNames n auxs) = length auxs \<and>
   list_all (\<lambda>d. \<not> isDefUseAttr d) (emittedRecords depKinds prob opNames n auxs) \<and>
   map (\<lambda>d. unat (operandIdx d)) (emittedRecords depKinds prob opNames n auxs) =
     [unat n ..< unat n + length auxs]"
proof (induction auxs arbitrary: n)
  case Nil
  show ?case by (simp add: emittedRecords_Nil)
next
  case (Cons d auxs)
  from Cons.prems(1) obtain src dst where d: "d = Auxiliary src dst"
    by (cases d) (simp_all add: isAuxiliary_def)
  from Cons.prems(3) have u: "unat (n + 1) = Suc (unat n)"
    by (simp add: unat_word_ariths)
  have "unat (n + 1) + length auxs < 2^32" using Cons.prems(3) u by simp
  with Cons.prems have ih:
    "length (emittedRecords depKinds prob opNames (n + 1) auxs) = length auxs \<and>
     list_all (\<lambda>d. \<not> isDefUseAttr d) (emittedRecords depKinds prob opNames (n + 1) auxs) \<and>
     map (\<lambda>d. unat (operandIdx d)) (emittedRecords depKinds prob opNames (n + 1) auxs) =
       [unat (n + 1) ..< unat (n + 1) + length auxs]"
    by (intro Cons.IH) simp_all
  from Cons.prems(2) d obtain name where "map_of opNames src = Some name"
    by (auto simp: sourceNamed_def)
  with ih d u show ?case
    by (simp add: emittedRecords_Cons emittedRecord_def isAuxiliary_def isDefUseAttr_def
          upt_conv_Cons del: upt_Suc)
qed

lemma takeWhile_dropWhile_split:
  "list_all P xs \<Longrightarrow> list_all (\<lambda>y. \<not> P y) ys \<Longrightarrow>
   takeWhile P (xs @ ys) = xs \<and> dropWhile P (xs @ ys) = ys"
proof (induction xs)
  case Nil
  then show ?case by (cases ys) simp_all
next
  case (Cons x xs)
  then show ?case by simp
qed

lemma filter_isAuxiliary_DefUse: "filter isAuxiliary (map (DefUse op) is) = []"
  by (induction "is") (simp_all add: isAuxiliary_def)

lemma getDependences_auxiliary:
  "filter isAuxiliary (getDependences prob op) =
     filter (\<lambda>dep. isAuxiliary dep \<and> getDestination dep = op) (insertedDependences prob)"
  by (simp add: getDependences_def filter_isAuxiliary_DefUse conj_commute cong: conj_cong)

lemma saveOperation_records:
  assumes "saveOperation opKinds depKinds prob opNames op = Inr opOp"
  shows "dependenceRecords opOp =
           emittedRecords depKinds prob opNames
             (of_nat (length (getOperands (containingOp prob) op))) (getDependences prob op)"
    and "length (operands opOp) = length (getOperands (containingOp prob) op)"
    and "list_all (sourceNamed opNames) (getDependences prob op)"
proof -
  from assms obtain depAttrs where
    s: "saveDependences depKinds prob opNames (getDependences prob op) []
          (of_nat (length (getOperands (containingOp prob) op))) = Inr depAttrs"
    and o: "opOp = \<lparr>sym_name = map_of opNames op,
               operands = map (ValueMapper_get prob) (getOperands (containingOp prob) op),
               numResults = getNumResults (containingOp prob) op,
               dependences = (if depAttrs = [] then None else Some depAttrs),
               opProperties = saveOperationProperties opKinds prob op\<rparr>"
    by (auto simp: saveOperation_def split: sum.splits)
  from o have "dependenceRecords opOp = depAttrs" by (simp add: dependenceRecords_def)
  with saveDependences_records [OF s]
  show "dependenceRecords opOp =
           emittedRecords depKinds prob opNames
             (of_nat (length (getOperands (containingOp prob) op))) (getDependences prob op)"
    by simp
  from o show "length (operands opOp) = length (getOperands (containingOp prob) op)" by simp
  show "list_all (sourceNamed opNames) (getDependences prob op)"
    unfolding list_all_iff
  proof
    fix dep assume m: "dep \<in> set (getDependences prob op)"
    show "sourceNamed opNames dep"
    proof (cases dep)
      case (DefUse op' i)
      then show ?thesis by (simp add: sourceNamed_def)
    next
      case (Auxiliary src dst)
      with m saveDependences_named [OF s, of src dst] show ?thesis
        by (simp add: sourceNamed_def)
    qed
  qed
qed

lemma sorted_filter_upt: "sorted_wrt (<) (filter P [0 ..< n])"
  by (rule sorted_wrt_filter) (simp add: sorted_wrt_upt)

lemma saveOperation_verifies:
  assumes "saveOperation opKinds depKinds prob opNames op = Inr opOp"
    and "length (getOperands (containingOp prob) op) +
         length (filter isAuxiliary (getDependences prob op)) < 2^31"
  shows "verify opOp = Inr ()"
proof -
  let ?n = "length (getOperands (containingOp prob) op)"
  let ?auxs = "filter (\<lambda>dep. isAuxiliary dep \<and> getDestination dep = op) (insertedDependences prob)"
  let ?D = "emittedRecords depKinds prob opNames (of_nat ?n) (map (DefUse op) [0 ..< ?n])"
  let ?A = "emittedRecords depKinds prob opNames (of_nat ?n) ?auxs"
  note r = saveOperation_records [OF assms(1)]
  have g: "getDependences prob op = map (DefUse op) [0 ..< ?n] @ ?auxs"
    by (simp add: getDependences_def)
  have la: "length ?auxs = length (filter isAuxiliary (getDependences prob op))"
    by (simp add: getDependences_auxiliary)
  with assms(2) have bound: "?n + length ?auxs < 2^31" by simp
  then have un: "unat (of_nat ?n :: 32 word) = ?n" by (simp add: unat_of_nat)
  have recs: "dependenceRecords opOp = ?D @ ?A"
    unfolding r(1) g emittedRecords_append filter_isAuxiliary_DefUse by simp
  have "list_all (\<lambda>i. i < 2^32) [0 ..< ?n]"
    using bound by (simp add: list_all_iff)
  from emittedRecords_DefUse [OF this, of depKinds prob opNames "of_nat ?n" op]
  have d1: "list_all isDefUseAttr ?D"
    and d2: "map (\<lambda>d. unat (operandIdx d)) ?D =
       filter (\<lambda>i. saveDependenceProperties depKinds prob (DefUse op i) \<noteq> None) [0 ..< ?n]"
    by simp_all
  have a0: "list_all isAuxiliary ?auxs" by (simp add: list_all_iff)
  have a1: "list_all (sourceNamed opNames) ?auxs"
    using r(3) unfolding g by (simp add: list_all_iff)
  have a2: "unat (of_nat ?n :: 32 word) + length ?auxs < 2^32" using bound un by simp
  from emittedRecords_Auxiliary [OF a0 a1 a2, of depKinds prob]
  have e1: "length ?A = length ?auxs" and e2: "list_all (\<lambda>d. \<not> isDefUseAttr d) ?A"
    and e3: "map (\<lambda>d. unat (operandIdx d)) ?A = [?n ..< ?n + length ?auxs]"
    unfolding un by simp_all
  from takeWhile_dropWhile_split [OF d1 e2]
  have t: "takeWhile isDefUseAttr (?D @ ?A) = ?D" and dw: "dropWhile isDefUseAttr (?D @ ?A) = ?A"
    by simp_all
  have s: "sorted_wrt (<) (map (\<lambda>d. unat (operandIdx d)) ?D)"
    unfolding d2 by (rule sorted_filter_upt)
  have b: "list_all (\<lambda>dep. unat (operandIdx dep) < ?n) ?D"
  proof -
    have "set (map (\<lambda>d. unat (operandIdx d)) ?D) \<subseteq> {0 ..< ?n}" unfolding d2 by auto
    then show ?thesis by (auto simp: list_all_iff)
  qed
  have inv: "documentInvariant (length (operands opOp)) (dependenceRecords opOp)"
    unfolding documentInvariant_def Let_def recs t dw r(2)
    using s b e2 e3 e1 by simp
  have "length (operands opOp) + length (dropWhile isDefUseAttr (dependenceRecords opOp)) < 2^31"
    unfolding recs dw r(2) e1 using bound .
  from verify_iff_documentInvariant [OF this] inv show ?thesis by simp
qed

lemma saveOperations_each:
  "saveOperations opKinds depKinds prob opNames ops = Inr opOps \<Longrightarrow>
   list_all2 (\<lambda>op opOp. saveOperation opKinds depKinds prob opNames op = Inr opOp) ops opOps"
proof (induction ops arbitrary: opOps)
  case Nil
  then show ?case by simp
next
  case (Cons op ops)
  from Cons.prems obtain opOp rest where
    a: "saveOperation opKinds depKinds prob opNames op = Inr opOp" and
    b: "saveOperations opKinds depKinds prob opNames ops = Inr rest" and
    c: "opOps = opOp # rest"
    by (auto split: sum.splits)
  from Cons.IH [OF b] a c show ?case by simp
qed

lemma saveProblem_operations:
  assumes "saveProblem opKinds oprKinds depKinds instKinds prob instName probName f = Inr instOp"
  shows "list_all2 (\<lambda>op opOp. saveOperation opKinds depKinds prob (assignNames f prob) op = Inr opOp)
           (operations prob) (walkOperationOps instOp)"
proof -
  from assms obtain opOps where
    s: "saveOperations opKinds depKinds prob (assignNames f prob) (operations prob) = Inr opOps"
    and b: "body instOp =
      map OperatorTypeBodyOp
        (map (\<lambda>opr. \<lparr>oprName = opr, oprProperties = saveOperatorTypeProperties oprKinds prob opr\<rparr>)
           (operatorTypes prob)) @ map OperationBodyOp opOps"
    by (auto simp: saveProblem_def Let_def split: sum.splits)
  from b have "walkOperationOps instOp = opOps" by (rule walkOperationOps_saved)
  with saveOperations_each [OF s] show ?thesis by simp
qed

lemma exampleSaved_eq: "exampleSaved = Inr exampleInstance"
  by code_simp

text \<open>
  Claim C8. In the emission pass of \<open>saveProblem\<close> the record sequence of every operation
  holds a record for a data edge only when the edge has encoded properties (at the slot
  index of the edge, with no source name), none for a data edge without properties, and
  one for every auxiliary edge, the auxiliary records getting consecutive slot indices
  from the operand count on, in the order of enumeration; so every operation of the
  saved instance passes \<open>OperationOp::verify\<close>. The operand count and the number of
  auxiliary edges of an operation together stay below \<open>2^31\<close>, the range of the C++
  \<open>int\<close> the verifier compares in.
\<close>

theorem saver_reproduces_record_invariant:
  assumes "saveProblem opKinds oprKinds depKinds instKinds prob instName probName f = Inr instOp"
    and "list_all (\<lambda>op. length (getOperands (containingOp prob) op) +
                        length (filter isAuxiliary (getDependences prob op)) < 2^31)
           (operations prob)"
  shows "map dependenceRecords (walkOperationOps instOp) =
           map (\<lambda>op. emittedRecords depKinds prob (assignNames f prob)
                       (of_nat (length (getOperands (containingOp prob) op)))
                       (getDependences prob op))
             (operations prob) \<and>
         list_all (\<lambda>opOp. verify opOp = Inr ()) (walkOperationOps instOp)"
proof -
  note l = saveProblem_operations [OF assms(1)]
  have len: "length (operations prob) = length (walkOperationOps instOp)"
    using l by (rule list_all2_lengthD)
  have a: "map dependenceRecords (walkOperationOps instOp) =
           map (\<lambda>op. emittedRecords depKinds prob (assignNames f prob)
                       (of_nat (length (getOperands (containingOp prob) op)))
                       (getDependences prob op))
             (operations prob)"
  proof (rule nth_equalityI)
    show "length (map dependenceRecords (walkOperationOps instOp)) =
          length (map (\<lambda>op. emittedRecords depKinds prob (assignNames f prob)
                       (of_nat (length (getOperands (containingOp prob) op)))
                       (getDependences prob op)) (operations prob))"
      using len by simp
  next
    fix i assume "i < length (map dependenceRecords (walkOperationOps instOp))"
    then have i: "i < length (walkOperationOps instOp)" by simp
    with l len have "saveOperation opKinds depKinds prob (assignNames f prob) (operations prob ! i) =
        Inr (walkOperationOps instOp ! i)"
      by (simp add: list_all2_conv_all_nth)
    from saveOperation_records(1) [OF this] i len
    show "map dependenceRecords (walkOperationOps instOp) ! i =
          map (\<lambda>op. emittedRecords depKinds prob (assignNames f prob)
                       (of_nat (length (getOperands (containingOp prob) op)))
                       (getDependences prob op)) (operations prob) ! i"
      by simp
  qed
  have b: "list_all (\<lambda>opOp. verify opOp = Inr ()) (walkOperationOps instOp)"
    unfolding list_all_length
  proof (intro allI impI)
    fix i assume i: "i < length (walkOperationOps instOp)"
    with l len have s: "saveOperation opKinds depKinds prob (assignNames f prob) (operations prob ! i) =
        Inr (walkOperationOps instOp ! i)"
      by (simp add: list_all2_conv_all_nth)
    from assms(2) i len have "length (getOperands (containingOp prob) (operations prob ! i)) +
        length (filter isAuxiliary (getDependences prob (operations prob ! i))) < 2^31"
      by (simp add: list_all_length)
    with s show "verify (walkOperationOps instOp ! i) = Inr ()" by (rule saveOperation_verifies)
  qed
  from a b show ?thesis ..
qed

theorem saver_reproduces_record_invariant_witness:
  "exampleSaved = Inr exampleInstance \<and>
   list_all (\<lambda>op. length (getOperands (containingOp exampleProblem) op) +
                        length (filter isAuxiliary (getDependences exampleProblem op)) < 2^31)
           (operations exampleProblem) \<and>
   map dependenceRecords (walkOperationOps exampleInstance) =
     [[], [\<lparr>operandIdx = 0, sourceRef = None, depProperties = Some [(''distance'', 2)]\<rparr>],
      [\<lparr>operandIdx = 0, sourceRef = Some ''op0'', depProperties = None\<rparr>]] \<and>
   list_all (\<lambda>opOp. verify opOp = Inr ()) (walkOperationOps exampleInstance)"
proof -
  have a: "saveProblem [OperationProperty ''startTime''] [OperatorTypeProperty ''latency'']
       [DependenceProperty ''distance''] [InstanceProperty ''II''] exampleProblem
       ''example'' ''Problem'' exampleNameFn = Inr exampleInstance"
    using exampleSaved_eq by (simp add: exampleSaved_def)
  have b: "list_all (\<lambda>op. length (getOperands (containingOp exampleProblem) op) +
                        length (filter isAuxiliary (getDependences exampleProblem op)) < 2^31)
           (operations exampleProblem)"
  proof -
    have "map (\<lambda>op. length (getOperands (containingOp exampleProblem) op) +
                        length (filter isAuxiliary (getDependences exampleProblem op)))
            (operations exampleProblem) = [0, 1, 1]"
      by code_simp
    then have "list_all (\<lambda>v. v < 2^31)
       (map (\<lambda>op. length (getOperands (containingOp exampleProblem) op) +
                        length (filter isAuxiliary (getDependences exampleProblem op)))
            (operations exampleProblem))"
      by simp
    then show ?thesis by (simp add: list_all_iff)
  qed
  have c: "map dependenceRecords (walkOperationOps exampleInstance) =
     [[], [\<lparr>operandIdx = 0, sourceRef = None, depProperties = Some [(''distance'', 2)]\<rparr>],
      [\<lparr>operandIdx = 0, sourceRef = Some ''op0'', depProperties = None\<rparr>]]"
    by code_simp
  from saver_reproduces_record_invariant [OF a b]
  have "list_all (\<lambda>opOp. verify opOp = Inr ()) (walkOperationOps exampleInstance)" ..
  with exampleSaved_eq b c show ?thesis by (intro conjI)
qed

section \<open>Round trip of a Problem through the document form\<close>

subsection \<open>Property slots\<close>

text \<open>
  Saving a table in order and loading the result into an empty table gives the table
  back; with the named kinds, the four loaders and the four savers are \<open>loadSlots\<close> and
  \<open>saveSlots\<close> at their attachment point.
\<close>

lemma slotsOk_empty: "slotsOk names (\<lambda>k. None)"
  by (simp add: slotsOk_def)

lemma slotsOk_step:
  "slotsOk names slots \<Longrightarrow> fst p \<in> set names \<Longrightarrow> slotsOk names (slots(fst p := Some p))"
  unfolding slotsOk_def by (metis fun_upd_apply option.inject)

lemma slotsOk_foldl:
  "slotsOk names slots \<Longrightarrow>
   slotsOk names (foldl (\<lambda>m p. if fst p \<in> set names then m(fst p := Some p) else m) slots ps)"
proof (induction ps arbitrary: slots)
  case Nil
  then show ?case by simp
next
  case (Cons a ps)
  show ?case
  proof (cases "fst a \<in> set names")
    case True
    with Cons.prems have "slotsOk names (slots(fst a := Some a))" by (intro slotsOk_step)
    from Cons.IH [OF this] True show ?thesis by (simp only: foldl_Cons if_True)
  next
    case False
    with Cons.IH [OF Cons.prems] show ?thesis by (simp only: foldl_Cons if_False)
  qed
qed

lemma slotsOk_loadSlots: "slotsOk names slots \<Longrightarrow> slotsOk names (loadSlots names slots props)"
  by (cases props) (simp_all add: loadSlots_def slotsOk_foldl)

lemma foldl_saved_slots_key:
  fixes slots :: "'k \<Rightarrow> 'b option" and key :: "'b \<Rightarrow> 'k"
  assumes "\<forall>k p. slots k = Some p \<longrightarrow> key p = k" and "set ns \<subseteq> set names"
  shows "foldl (\<lambda>m p. if key p \<in> set names then m(key p := Some p) else m) m0
           (List.map_filter slots ns) =
         (\<lambda>k. if k \<in> set ns \<and> slots k \<noteq> None then slots k else m0 k)"
  using assms(2)
proof (induction ns arbitrary: m0)
  case Nil
  show ?case by simp
next
  case (Cons n ns)
  then have incl: "set ns \<subseteq> set names" and n: "n \<in> set names" by simp_all
  show ?case
  proof (cases "slots n")
    case None
    have "foldl (\<lambda>m p. if key p \<in> set names then m(key p := Some p) else m) m0
           (List.map_filter slots (n # ns)) =
          (\<lambda>k. if k \<in> set ns \<and> slots k \<noteq> None then slots k else m0 k)"
      using None Cons.IH [OF incl] by simp
    also have "\<dots> = (\<lambda>k. if k \<in> set (n # ns) \<and> slots k \<noteq> None then slots k else m0 k)"
      using None by (intro ext) auto
    finally show ?thesis .
  next
    case (Some p)
    with assms(1) have f: "key p = n" by blast
    have "foldl (\<lambda>m p. if key p \<in> set names then m(key p := Some p) else m) m0
           (List.map_filter slots (n # ns)) =
          (\<lambda>k. if k \<in> set ns \<and> slots k \<noteq> None then slots k else (m0(n := Some p)) k)"
      using Some f n Cons.IH [OF incl] by simp
    also have "\<dots> = (\<lambda>k. if k \<in> set (n # ns) \<and> slots k \<noteq> None then slots k else m0 k)"
      using Some by (intro ext) auto
    finally show ?thesis .
  qed
qed

lemma foldl_saved_slots:
  assumes "\<forall>k p. slots k = Some p \<longrightarrow> fst p = k" and "set ns \<subseteq> set names"
  shows "foldl (\<lambda>m p. if fst p \<in> set names then m(fst p := Some p) else m) m0
           (List.map_filter slots ns) =
         (\<lambda>k. if k \<in> set ns \<and> slots k \<noteq> None then slots k else m0 k)"
  using foldl_saved_slots_key [of slots fst ns names m0] assms by blast

lemma loadSlots_saveSlots:
  assumes "slotsOk names slots"
  shows "loadSlots names (\<lambda>k. None) (saveSlots names slots) = slots"
proof -
  have a: "\<forall>k p. slots k = Some p \<longrightarrow> fst p = k"
    using assms unfolding slotsOk_def by blast
  have b: "k \<in> set names" if "slots k \<noteq> None" for k
    using assms that unfolding slotsOk_def by blast
  have "(\<lambda>k. if k \<in> set names \<and> slots k \<noteq> None then slots k else None) = slots"
  proof
    fix k show "(if k \<in> set names \<and> slots k \<noteq> None then slots k else None) = slots k"
      using b [of k] by (cases "slots k") simp_all
  qed
  then have full: "foldl (\<lambda>m p. if fst p \<in> set names then m(fst p := Some p) else m)
                 (\<lambda>k. None) (List.map_filter slots names) = slots"
    unfolding foldl_saved_slots [OF a subset_refl] .
  show ?thesis
  proof (cases "List.map_filter slots names = []")
    case True
    with full have "slots = (\<lambda>k. None)" by simp
    with True show ?thesis by (simp add: loadSlots_def saveSlots_def)
  next
    case False
    with full show ?thesis by (simp add: loadSlots_def saveSlots_def)
  qed
qed

lemma find_kind:
  assumes "\<And>name. classof (mk name) prop = (fst prop = name)"
  shows "find (\<lambda>kind. classof kind prop) (map mk names) =
     (if fst prop \<in> set names then Some (mk (fst prop)) else None)"
  by (induction names) (auto simp: assms)

lemma map_filter_map: "List.map_filter f (map g xs) = List.map_filter (\<lambda>x. f (g x)) xs"
  by (simp add: List.map_filter_def filter_map comp_def)

lemma saveInstanceProperties_slots:
  "saveInstanceProperties (map InstanceProperty names) prob = saveSlots names (instanceProperty prob)"
  by (simp add: saveInstanceProperties_def saveSlots_def map_filter_map InstanceProperty_def Let_def)

lemma saveOperatorTypeProperties_slots:
  "saveOperatorTypeProperties (map OperatorTypeProperty names) prob opr =
     saveSlots names (operatorTypeProperty prob opr)"
  by (simp add: saveOperatorTypeProperties_def saveSlots_def map_filter_map OperatorTypeProperty_def
        Let_def)

lemma saveOperationProperties_slots:
  "saveOperationProperties (map OperationProperty names) prob op =
     saveSlots names (operationProperty prob op)"
  by (simp add: saveOperationProperties_def saveSlots_def map_filter_map OperationProperty_def Let_def)

lemma saveDependenceProperties_slots:
  "saveDependenceProperties (map DependenceProperty names) prob dep =
     saveSlots names (dependenceProperty prob dep)"
  by (simp add: saveDependenceProperties_def saveSlots_def map_filter_map DependenceProperty_def
        Let_def)

lemma loadSlots_None: "loadSlots names slots None = slots"
  by (simp add: loadSlots_def)

lemma loadSlots_Cons:
  "loadSlots names slots (Some (p # ps)) =
     loadSlots names (if fst p \<in> set names then slots(fst p := Some p) else slots) (Some ps)"
  by (simp add: loadSlots_def)

lemma loadInstanceProperties_foldl:
  "foldl (\<lambda>p a. case find (\<lambda>kind. classof kind a) (map InstanceProperty names) of
                   None \<Rightarrow> p | Some kind \<Rightarrow> setInProblem kind a p ()) prob ps =
   prob\<lparr>instanceProperty := loadSlots names (instanceProperty prob) (Some ps)\<rparr>"
proof (induction ps arbitrary: prob)
  case Nil
  show ?case by (simp add: loadSlots_def)
next
  case (Cons a ps)
  have f: "find (\<lambda>kind. classof kind a) (map InstanceProperty names) =
        (if fst a \<in> set names then Some (InstanceProperty (fst a)) else None)"
    by (rule find_kind) (simp add: InstanceProperty_def)
  show ?case
    unfolding foldl_Cons f Cons.IH loadSlots_Cons
    by (simp add: InstanceProperty_def)
qed

lemma loadInstanceProperties_slots:
  "loadInstanceProperties (map InstanceProperty names) prob props =
     prob\<lparr>instanceProperty := loadSlots names (instanceProperty prob) props\<rparr>"
proof (cases props)
  case None
  then show ?thesis by (simp add: loadInstanceProperties_def loadSlots_None split: list.split)
next
  case (Some ps)
  show ?thesis
    unfolding Some loadInstanceProperties_find loadInstanceProperties_foldl ..
qed

lemma loadOperatorTypeProperties_foldl:
  "foldl (\<lambda>p a. case find (\<lambda>kind. classof kind a) (map OperatorTypeProperty names) of
                   None \<Rightarrow> p | Some kind \<Rightarrow> setInProblem kind a p opr) prob ps =
   prob\<lparr>operatorTypeProperty :=
     (operatorTypeProperty prob)(opr := loadSlots names (operatorTypeProperty prob opr) (Some ps))\<rparr>"
proof (induction ps arbitrary: prob)
  case Nil
  show ?case by (simp add: loadSlots_def)
next
  case (Cons a ps)
  have f: "find (\<lambda>kind. classof kind a) (map OperatorTypeProperty names) =
        (if fst a \<in> set names then Some (OperatorTypeProperty (fst a)) else None)"
    by (rule find_kind) (simp add: OperatorTypeProperty_def)
  show ?case
    unfolding foldl_Cons f Cons.IH loadSlots_Cons
    by (simp add: OperatorTypeProperty_def) (simp add: fun_upd_def cong: if_cong)
qed

lemma loadOperatorTypeProperties_slots:
  "loadOperatorTypeProperties (map OperatorTypeProperty names) prob opr props =
     prob\<lparr>operatorTypeProperty :=
       (operatorTypeProperty prob)(opr := loadSlots names (operatorTypeProperty prob opr) props)\<rparr>"
proof (cases props)
  case None
  then show ?thesis by (simp add: loadOperatorTypeProperties_def loadSlots_None split: list.split)
next
  case (Some ps)
  show ?thesis
    unfolding Some loadOperatorTypeProperties_find loadOperatorTypeProperties_foldl ..
qed

lemma loadOperationProperties_foldl:
  "foldl (\<lambda>p a. case find (\<lambda>kind. classof kind a) (map OperationProperty names) of
                   None \<Rightarrow> p | Some kind \<Rightarrow> setInProblem kind a p op) prob ps =
   prob\<lparr>operationProperty :=
     (operationProperty prob)(op := loadSlots names (operationProperty prob op) (Some ps))\<rparr>"
proof (induction ps arbitrary: prob)
  case Nil
  show ?case by (simp add: loadSlots_def)
next
  case (Cons a ps)
  have f: "find (\<lambda>kind. classof kind a) (map OperationProperty names) =
        (if fst a \<in> set names then Some (OperationProperty (fst a)) else None)"
    by (rule find_kind) (simp add: OperationProperty_def)
  show ?case
    unfolding foldl_Cons f Cons.IH loadSlots_Cons
    by (simp add: OperationProperty_def) (simp add: fun_upd_def cong: if_cong)
qed

lemma loadOperationProperties_slots:
  "loadOperationProperties (map OperationProperty names) prob op props =
     prob\<lparr>operationProperty :=
       (operationProperty prob)(op := loadSlots names (operationProperty prob op) props)\<rparr>"
proof (cases props)
  case None
  then show ?thesis by (simp add: loadOperationProperties_def loadSlots_None split: list.split)
next
  case (Some ps)
  show ?thesis
    unfolding Some loadOperationProperties_find loadOperationProperties_foldl ..
qed

lemma loadDependenceProperties_foldl:
  "foldl (\<lambda>p a. case find (\<lambda>kind. classof kind a) (map DependenceProperty names) of
                   None \<Rightarrow> p | Some kind \<Rightarrow> setInProblem kind a p dep) prob ps =
   prob\<lparr>dependenceProperty :=
     (dependenceProperty prob)(dep := loadSlots names (dependenceProperty prob dep) (Some ps))\<rparr>"
proof (induction ps arbitrary: prob)
  case Nil
  show ?case by (simp add: loadSlots_def)
next
  case (Cons a ps)
  have f: "find (\<lambda>kind. classof kind a) (map DependenceProperty names) =
        (if fst a \<in> set names then Some (DependenceProperty (fst a)) else None)"
    by (rule find_kind) (simp add: DependenceProperty_def)
  show ?case
    unfolding foldl_Cons f Cons.IH loadSlots_Cons
    by (simp add: DependenceProperty_def) (simp add: fun_upd_def cong: if_cong)
qed

lemma loadDependenceProperties_slots:
  "loadDependenceProperties (map DependenceProperty names) prob dep props =
     prob\<lparr>dependenceProperty :=
       (dependenceProperty prob)(dep := loadSlots names (dependenceProperty prob dep) props)\<rparr>"
proof (cases props)
  case None
  then show ?thesis by (simp add: loadDependenceProperties_def loadSlots_None split: list.split)
next
  case (Some ps)
  show ?thesis
    unfolding Some loadDependenceProperties_find loadDependenceProperties_foldl ..
qed

subsection \<open>saveProblem never fails\<close>

text \<open>
  The first loop names every source of an auxiliary dependence of an operation of the
  Problem, so the \<open>assert\<close> of the second loop holds, and \<open>saveProblem\<close> returns
  \<open>savedInstance\<close>. When the caller names every such source, the table holds the caller's
  names and no other.
\<close>

lemma saveDependences_total:
  "list_all (sourceNamed opNames) deps \<Longrightarrow>
   saveDependences depKinds prob opNames deps depAttrs auxOperandIdx =
     Inr (depAttrs @ emittedRecords depKinds prob opNames auxOperandIdx deps)"
proof (induction deps arbitrary: depAttrs auxOperandIdx)
  case Nil
  show ?case by (simp add: emittedRecords_Nil)
next
  case (Cons d deps)
  then have rest: "list_all (sourceNamed opNames) deps" by simp
  show ?case
  proof (cases d)
    case (DefUse op i)
    show ?thesis
      by (cases "saveDependenceProperties depKinds prob (DefUse op i)")
         (simp_all add: DefUse Cons.IH [OF rest] emittedRecords_Cons emittedRecord_def
            isAuxiliary_def Let_def)
  next
    case (Auxiliary src dst)
    from Cons.prems obtain name where "map_of opNames src = Some name"
      by (auto simp: Auxiliary sourceNamed_def)
    then show ?thesis
      by (simp add: Auxiliary Cons.IH [OF rest] emittedRecords_Cons emittedRecord_def
            isAuxiliary_def Let_def)
  qed
qed

lemma saveOperation_total:
  "list_all (sourceNamed opNames) (getDependences prob op) \<Longrightarrow>
   saveOperation opKinds depKinds prob opNames op =
     Inr (savedOperation opKinds depKinds prob opNames op)"
  by (simp add: saveOperation_def saveDependences_total savedOperation_def savedRecords_def)

lemma saveOperations_total:
  "\<forall>op \<in> set ops. list_all (sourceNamed opNames) (getDependences prob op) \<Longrightarrow>
   saveOperations opKinds depKinds prob opNames ops =
     Inr (map (savedOperation opKinds depKinds prob opNames) ops)"
  by (induction ops) (simp_all add: saveOperation_total)

lemma assignNames_sourceNamed:
  assumes "op \<in> set (operations prob)"
  shows "list_all (sourceNamed (assignNames f prob)) (getDependences prob op)"
proof -
  have "sourceNamed (assignNames f prob) dep" if dep: "dep \<in> set (getDependences prob op)" for dep
  proof (cases dep)
    case (DefUse op' i)
    then show ?thesis by (simp add: sourceNamed_def)
  next
    case (Auxiliary src dst)
    with dep assms have "src \<in> auxiliarySources prob"
      unfolding auxiliarySources_def by blast
    then have "src \<in> fst ` set (assignNames f prob)"
      by (simp add: keys_assignNames)
    then have "map_of (assignNames f prob) src \<noteq> None"
      by (simp add: map_of_eq_None_iff)
    then show ?thesis by (simp add: Auxiliary sourceNamed_def)
  qed
  then show ?thesis by (simp add: list_all_iff)
qed

lemma saveProblem_total:
  "saveProblem opKinds oprKinds depKinds instKinds prob instName probName f =
     Inr (savedInstance opKinds oprKinds depKinds instKinds prob instName probName f)"
  by (simp add: saveProblem_def savedInstance_def Let_def saveOperations_total
        assignNames_sourceNamed)

lemma assignNames_provided:
  assumes named: "\<forall>src \<in> auxiliarySources prob. f src \<noteq> None"
    and op: "op \<in> set (operations prob)"
  shows "map_of (assignNames f prob) op = f op"
proof (cases "map_of (assignNames f prob) op")
  case None
  then have "op \<notin> fst ` set (assignNames f prob)"
    by (simp add: map_of_eq_None_iff)
  with op have "f op = None"
    by (auto simp: keys_assignNames)
  with None show ?thesis by simp
next
  case (Some name)
  then have mem: "(op, name) \<in> set (assignNames f prob)"
    by (rule map_of_SomeD)
  have inv: "namesInvariant f (assignNames f prob)"
    by (rule namesInvariant_assignNames)
  from inv mem have nb: "namedBelow f (length (assignNames f prob)) (op, name)"
    by (auto simp: namesInvariant_def list_all_iff)
  from mem have "op \<in> fst ` set (assignNames f prob)"
    by force
  then have "f op \<noteq> None"
    using named by (auto simp: keys_assignNames)
  then obtain p where p: "f op = Some p" by auto
  with nb have "name = p" by (simp add: namedBelow_def)
  with Some p show ?thesis by simp
qed

subsection \<open>Loading a saved instance\<close>

text \<open>
  The three passes of \<open>loadProblem\<close> on what \<open>saveProblem\<close> wrote, each computed exactly:
  the operator types and the operations with their properties, then, operation by
  operation, the dependence records.
\<close>

lemma saveSlots_None:
  assumes "slotsOk names slots" and "saveSlots names slots = None"
  shows "slots = (\<lambda>k. None)"
  using loadSlots_saveSlots [OF assms(1)] assms(2) by (simp add: loadSlots_None)

lemma walkOperatorTypeOps_saved:
  "body instOp = map OperatorTypeBodyOp oprOps @ map OperationBodyOp opOps \<Longrightarrow>
   walkOperatorTypeOps instOp = oprOps"
  by (simp add: walkOperatorTypeOps_def List.map_filter_def filter_map comp_def)

lemma lookupSymbol_operatorTypes:
  "s \<notin> oprName ` set oprOps \<Longrightarrow>
   lookupSymbol (map OperatorTypeBodyOp oprOps @ ops) i j s =
     lookupSymbol ops (i + length oprOps) j s"
  by (induction oprOps arbitrary: i) auto

lemma lookupSymbol_operations:
  "k < length opOps \<Longrightarrow> sym_name (opOps ! k) = Some s \<Longrightarrow>
   (\<forall>k' < k. sym_name (opOps ! k') \<noteq> Some s) \<Longrightarrow>
   lookupSymbol (map OperationBodyOp opOps) i j s = Some (OperationRef (j + k))"
proof (induction opOps arbitrary: k j)
  case Nil
  then show ?case by simp
next
  case (Cons opOp opOps)
  show ?case
  proof (cases k)
    case 0
    with Cons.prems show ?thesis by simp
  next
    case (Suc k')
    with Cons.prems have head: "sym_name opOp \<noteq> Some s" by auto
    from Cons.prems Suc
    have "lookupSymbol (map OperationBodyOp opOps) i (Suc j) s = Some (OperationRef (Suc j + k'))"
      by (intro Cons.IH) auto
    with head Suc show ?thesis by simp
  qed
qed

lemma reload_operatorTypes:
  assumes "distinct oprs" and "set oprs \<inter> set (operatorTypes prob) = {}"
    and "\<forall>opr \<in> set oprs. operatorTypeProperty prob opr = (\<lambda>k. None)"
    and "\<forall>opr \<in> set oprs. slotsOk names (F opr)"
  shows "foldl (\<lambda>prob oprOp.
            loadOperatorTypeProperties (map OperatorTypeProperty names)
              (insertOperatorType prob (oprName oprOp)) (oprName oprOp) (oprProperties oprOp))
           prob (map (\<lambda>opr. \<lparr>oprName = opr, oprProperties = saveSlots names (F opr)\<rparr>) oprs) =
         prob\<lparr>operatorTypes := operatorTypes prob @ oprs,
              operatorTypeProperty :=
                (\<lambda>opr. if opr \<in> set oprs then F opr else operatorTypeProperty prob opr)\<rparr>"
  using assms
proof (induction oprs arbitrary: prob)
  case Nil
  show ?case by simp
next
  case (Cons x xs)
  let ?prob' = "prob\<lparr>operatorTypes := operatorTypes prob @ [x],
                     operatorTypeProperty := (operatorTypeProperty prob)(x := F x)\<rparr>"
  from Cons.prems have x: "x \<notin> set (operatorTypes prob)" "operatorTypeProperty prob x = (\<lambda>k. None)"
    "slotsOk names (F x)" by auto
  have step: "loadOperatorTypeProperties (map OperatorTypeProperty names)
                (insertOperatorType prob x) x (saveSlots names (F x)) = ?prob'"
    using x by (simp add: loadOperatorTypeProperties_slots insertOperatorType_def loadSlots_saveSlots)
  have ih: "foldl (\<lambda>prob oprOp.
            loadOperatorTypeProperties (map OperatorTypeProperty names)
              (insertOperatorType prob (oprName oprOp)) (oprName oprOp) (oprProperties oprOp))
           ?prob' (map (\<lambda>opr. \<lparr>oprName = opr, oprProperties = saveSlots names (F opr)\<rparr>) xs) =
         ?prob'\<lparr>operatorTypes := operatorTypes ?prob' @ xs,
              operatorTypeProperty :=
                (\<lambda>opr. if opr \<in> set xs then F opr else operatorTypeProperty ?prob' opr)\<rparr>"
    using Cons.prems by (intro Cons.IH) auto
  show ?case
    unfolding list.map foldl_Cons OperatorTypeOp.simps step ih
    by (rule Problem.equality) (auto simp: fun_eq_iff)
qed

lemma reload_operations:
  assumes "distinct ops" and "set ops \<inter> set (operations prob) = {}"
    and "\<forall>op \<in> set ops. operationProperty prob op = (\<lambda>k. None)"
    and "\<forall>op \<in> set ops. slotsOk names (F op)"
    and "\<forall>op \<in> set ops. opProperties (G op) = saveSlots names (F op)"
  shows "foldl (\<lambda>prob (opRef, opOp).
            loadOperationProperties (map OperationProperty names)
              (insertOperation prob opRef) opRef (opProperties opOp))
           prob (map (\<lambda>op. (op, G op)) ops) =
         prob\<lparr>operations := operations prob @ ops,
              operationProperty :=
                (\<lambda>op. if op \<in> set ops then F op else operationProperty prob op)\<rparr>"
  using assms
proof (induction ops arbitrary: prob)
  case Nil
  show ?case by simp
next
  case (Cons x xs)
  let ?prob' = "prob\<lparr>operations := operations prob @ [x],
                     operationProperty := (operationProperty prob)(x := F x)\<rparr>"
  from Cons.prems have x: "x \<notin> set (operations prob)" "operationProperty prob x = (\<lambda>k. None)"
    "slotsOk names (F x)" "opProperties (G x) = saveSlots names (F x)" by auto
  have step: "loadOperationProperties (map OperationProperty names)
                (insertOperation prob x) x (opProperties (G x)) = ?prob'"
    using x by (simp add: loadOperationProperties_slots insertOperation_def loadSlots_saveSlots)
  have ih: "foldl (\<lambda>prob (opRef, opOp).
            loadOperationProperties (map OperationProperty names)
              (insertOperation prob opRef) opRef (opProperties opOp))
           ?prob' (map (\<lambda>op. (op, G op)) xs) =
         ?prob'\<lparr>operations := operations ?prob' @ xs,
              operationProperty :=
                (\<lambda>op. if op \<in> set xs then F op else operationProperty ?prob' op)\<rparr>"
    using Cons.prems by (intro Cons.IH) auto
  show ?case
    unfolding list.map foldl_Cons prod.case step ih
    by (rule Problem.equality) (auto simp: fun_eq_iff)
qed

lemma unat_of_nat_32: "i < 2^32 \<Longrightarrow> unat (of_nat i :: 32 word) = i"
  by (simp add: unat_of_nat)

lemma reload_dependence_DefUse:
  assumes "i < length (operands opOp)" and "i < 2^32"
    and "dependenceProperty prob (DefUse opRef i) = (\<lambda>k. None)"
    and "slotsOk names slots"
    and "saveSlots names slots = Some ps"
  shows "loadDependence (map DependenceProperty names) instOp opRef opOp prob
           \<lparr>operandIdx = of_nat i, sourceRef = None, depProperties = Some ps\<rparr> =
         Inr (prob\<lparr>dependenceProperty := (dependenceProperty prob)(DefUse opRef i := slots)\<rparr>)"
proof -
  have "loadSlots names (\<lambda>k. None) (Some ps) = slots"
    using loadSlots_saveSlots [OF assms(4)] assms(5) by simp
  then show ?thesis
    using assms(1,2,3)
    by (simp add: loadDependence_def getOpOperand_def unat_of_nat_32
          loadDependenceProperties_slots)
qed

lemma reload_dependence_Auxiliary:
  assumes "lookupSymbolIn instOp name = Some src"
    and "src \<in> set (operations prob)" and "opRef \<in> set (operations prob)"
    and "Auxiliary src opRef \<notin> set (insertedDependences prob)"
    and "dependenceProperty prob (Auxiliary src opRef) = (\<lambda>k. None)"
    and "slotsOk names slots"
  shows "loadDependence (map DependenceProperty names) instOp opRef opOp prob
           \<lparr>operandIdx = idx, sourceRef = Some name, depProperties = saveSlots names slots\<rparr> =
         Inr (prob\<lparr>insertedDependences := insertedDependences prob @ [Auxiliary src opRef],
                   dependenceProperty := (dependenceProperty prob)(Auxiliary src opRef := slots)\<rparr>)"
  using assms
  by (simp add: loadDependence_def insertDependence_def getSource_def getDestination_def
        loadDependenceProperties_slots loadSlots_saveSlots)

lemma reload_dependences:
  assumes "distinct deps"
    and "set deps \<inter> set (insertedDependences prob) = {}"
    and "\<forall>dep \<in> set deps. dependenceProperty prob dep = (\<lambda>k. None)"
    and "\<forall>dep \<in> set deps. slotsOk names (dependenceProperty P dep)"
    and "\<forall>dep \<in> set deps. reloadable instOp (operations prob) opNames opRef (length (operands opOp)) dep"
  shows "loadDependenceAttrs (map DependenceProperty names) instOp opRef opOp
           (emittedRecords (map DependenceProperty names) P opNames idx deps) prob =
         Inr (prob\<lparr>insertedDependences := insertedDependences prob @ filter isAuxiliary deps,
                   dependenceProperty :=
                     (\<lambda>dep. if dep \<in> set deps then dependenceProperty P dep
                            else dependenceProperty prob dep)\<rparr>)"
  using assms
proof (induction deps arbitrary: prob idx)
  case Nil
  show ?case by (simp add: emittedRecords_Nil)
next
  case (Cons d deps)
  let ?ks = "map DependenceProperty names"
  have ok: "slotsOk names (dependenceProperty P d)" using Cons.prems by simp
  have empty: "dependenceProperty prob d = (\<lambda>k. None)" using Cons.prems by simp
  have rl: "reloadable instOp (operations prob) opNames opRef (length (operands opOp)) d"
    using Cons.prems by simp
  show ?case
  proof (cases d)
    case (DefUse op i)
    with rl have i: "op = opRef" "i < length (operands opOp)" "i < 2^32"
      by (simp_all add: reloadable_def)
    have aux: "\<not> isAuxiliary d" by (simp add: DefUse isAuxiliary_def)
    show ?thesis
    proof (cases "saveSlots names (dependenceProperty P d)")
      case None
      then have same: "dependenceProperty P d = (\<lambda>k. None)"
        using ok by (intro saveSlots_None)
      have rec: "emittedRecord ?ks P opNames idx d = None"
        using None by (simp add: emittedRecord_def DefUse saveDependenceProperties_slots)
      have ih: "loadDependenceAttrs ?ks instOp opRef opOp
           (emittedRecords ?ks P opNames idx deps) prob =
         Inr (prob\<lparr>insertedDependences := insertedDependences prob @ filter isAuxiliary deps,
                   dependenceProperty :=
                     (\<lambda>dep. if dep \<in> set deps then dependenceProperty P dep
                            else dependenceProperty prob dep)\<rparr>)"
        using Cons.prems by (intro Cons.IH) auto
      have "prob\<lparr>insertedDependences := insertedDependences prob @ filter isAuxiliary deps,
                   dependenceProperty :=
                     (\<lambda>dep. if dep \<in> set deps then dependenceProperty P dep
                            else dependenceProperty prob dep)\<rparr> =
            prob\<lparr>insertedDependences := insertedDependences prob @ filter isAuxiliary (d # deps),
                   dependenceProperty :=
                     (\<lambda>dep. if dep \<in> set (d # deps) then dependenceProperty P dep
                            else dependenceProperty prob dep)\<rparr>"
        using aux same empty by (intro Problem.equality) (auto simp: fun_eq_iff)
      with ih rec aux show ?thesis
        by (simp add: emittedRecords_Cons)
    next
      case (Some ps)
      let ?prob' = "prob\<lparr>dependenceProperty :=
                       (dependenceProperty prob)(d := dependenceProperty P d)\<rparr>"
      have rec: "emittedRecord ?ks P opNames idx d =
                   Some \<lparr>operandIdx = of_nat i, sourceRef = None, depProperties = Some ps\<rparr>"
        using Some by (simp add: emittedRecord_def DefUse saveDependenceProperties_slots)
      have step: "loadDependence ?ks instOp opRef opOp prob
           \<lparr>operandIdx = of_nat i, sourceRef = None, depProperties = Some ps\<rparr> = Inr ?prob'"
        using reload_dependence_DefUse [OF i(2) i(3) empty [unfolded DefUse i(1)] ok Some]
        by (simp add: DefUse i(1))
      have ih: "loadDependenceAttrs ?ks instOp opRef opOp
           (emittedRecords ?ks P opNames idx deps) ?prob' =
         Inr (?prob'\<lparr>insertedDependences := insertedDependences ?prob' @ filter isAuxiliary deps,
                   dependenceProperty :=
                     (\<lambda>dep. if dep \<in> set deps then dependenceProperty P dep
                            else dependenceProperty ?prob' dep)\<rparr>)"
        using Cons.prems by (intro Cons.IH) auto
      have "?prob'\<lparr>insertedDependences := insertedDependences ?prob' @ filter isAuxiliary deps,
                   dependenceProperty :=
                     (\<lambda>dep. if dep \<in> set deps then dependenceProperty P dep
                            else dependenceProperty ?prob' dep)\<rparr> =
            prob\<lparr>insertedDependences := insertedDependences prob @ filter isAuxiliary (d # deps),
                   dependenceProperty :=
                     (\<lambda>dep. if dep \<in> set (d # deps) then dependenceProperty P dep
                            else dependenceProperty prob dep)\<rparr>"
        using aux by (intro Problem.equality) (auto simp: fun_eq_iff)
      with ih rec aux step show ?thesis
        by (simp add: emittedRecords_Cons)
    qed
  next
    case (Auxiliary src dst)
    with rl obtain name where n: "dst = opRef" "src \<in> set (operations prob)"
      "opRef \<in> set (operations prob)" "map_of opNames src = Some name"
      "lookupSymbolIn instOp name = Some src"
      by (auto simp: reloadable_def)
    have aux: "isAuxiliary d" by (simp add: Auxiliary isAuxiliary_def)
    have new: "Auxiliary src opRef \<notin> set (insertedDependences prob)"
      using Cons.prems(2) by (auto simp: Auxiliary n(1))
    let ?prob' = "prob\<lparr>insertedDependences := insertedDependences prob @ [d],
                       dependenceProperty :=
                         (dependenceProperty prob)(d := dependenceProperty P d)\<rparr>"
    have rec: "emittedRecord ?ks P opNames idx d =
                 Some \<lparr>operandIdx = idx, sourceRef = Some name,
                       depProperties = saveSlots names (dependenceProperty P d)\<rparr>"
      using n(4) by (simp add: emittedRecord_def Auxiliary saveDependenceProperties_slots)
    have step: "loadDependence ?ks instOp opRef opOp prob
           \<lparr>operandIdx = idx, sourceRef = Some name,
            depProperties = saveSlots names (dependenceProperty P d)\<rparr> = Inr ?prob'"
      using reload_dependence_Auxiliary [OF n(5) n(2) n(3) new empty [unfolded Auxiliary n(1)] ok]
      by (simp add: Auxiliary n(1))
    have ih: "loadDependenceAttrs ?ks instOp opRef opOp
           (emittedRecords ?ks P opNames (idx + 1) deps) ?prob' =
         Inr (?prob'\<lparr>insertedDependences := insertedDependences ?prob' @ filter isAuxiliary deps,
                   dependenceProperty :=
                     (\<lambda>dep. if dep \<in> set deps then dependenceProperty P dep
                            else dependenceProperty ?prob' dep)\<rparr>)"
      using Cons.prems by (intro Cons.IH) auto
    have "?prob'\<lparr>insertedDependences := insertedDependences ?prob' @ filter isAuxiliary deps,
                   dependenceProperty :=
                     (\<lambda>dep. if dep \<in> set deps then dependenceProperty P dep
                            else dependenceProperty ?prob' dep)\<rparr> =
            prob\<lparr>insertedDependences := insertedDependences prob @ filter isAuxiliary (d # deps),
                   dependenceProperty :=
                     (\<lambda>dep. if dep \<in> set (d # deps) then dependenceProperty P dep
                            else dependenceProperty prob dep)\<rparr>"
      using aux by (intro Problem.equality) (auto simp: fun_eq_iff)
    with ih rec aux step show ?thesis
      by (simp add: emittedRecords_Cons)
  qed
qed

lemma loadDependencesWalk_records:
  "dependences opOp = (if recs = [] then None else Some recs) \<Longrightarrow>
   loadDependencesWalk ks instOp ((r, opOp) # ops) prob =
     (case loadDependenceAttrs ks instOp r opOp recs prob of
        Inl e \<Rightarrow> Inl e
      | Inr prob' \<Rightarrow> loadDependencesWalk ks instOp ops prob')"
  by (cases recs) simp_all

lemma reloadable_destination:
  "reloadable instOp ops opNames r m dep \<Longrightarrow> getDestination dep = r"
  by (cases dep) (simp_all add: reloadable_def getDestination_def)

lemma reload_walk:
  assumes "distinct rs"
    and "\<forall>r \<in> set rs. distinct (deps r)"
    and "\<forall>r \<in> set rs. set (deps r) \<inter> set (insertedDependences prob) = {}"
    and "\<forall>r \<in> set rs. \<forall>dep \<in> set (deps r). dependenceProperty prob dep = (\<lambda>k. None)"
    and "\<forall>r \<in> set rs. \<forall>dep \<in> set (deps r). slotsOk names (dependenceProperty P dep)"
    and "\<forall>r \<in> set rs. \<forall>dep \<in> set (deps r).
           reloadable instOp (operations prob) opNames r (length (operands (G r))) dep"
    and "\<forall>r \<in> set rs. dependences (G r) =
           (if emittedRecords (map DependenceProperty names) P opNames (idx r) (deps r) = [] then None
            else Some (emittedRecords (map DependenceProperty names) P opNames (idx r) (deps r)))"
  shows "loadDependencesWalk (map DependenceProperty names) instOp (map (\<lambda>r. (r, G r)) rs) prob =
         Inr (prob\<lparr>insertedDependences :=
                     insertedDependences prob @ concat (map (\<lambda>r. filter isAuxiliary (deps r)) rs),
                   dependenceProperty :=
                     (\<lambda>dep. if \<exists>r \<in> set rs. dep \<in> set (deps r) then dependenceProperty P dep
                            else dependenceProperty prob dep)\<rparr>)"
  using assms
proof (induction rs arbitrary: prob)
  case Nil
  show ?case by simp
next
  case (Cons x xs)
  let ?ks = "map DependenceProperty names"
  let ?prob' = "prob\<lparr>insertedDependences := insertedDependences prob @ filter isAuxiliary (deps x),
                   dependenceProperty :=
                     (\<lambda>dep. if dep \<in> set (deps x) then dependenceProperty P dep
                            else dependenceProperty prob dep)\<rparr>"
  have recs: "dependences (G x) =
           (if emittedRecords ?ks P opNames (idx x) (deps x) = [] then None
            else Some (emittedRecords ?ks P opNames (idx x) (deps x)))"
    using Cons.prems(7) by simp
  have step: "loadDependenceAttrs ?ks instOp x (G x)
           (emittedRecords ?ks P opNames (idx x) (deps x)) prob = Inr ?prob'"
    using Cons.prems by (intro reload_dependences) auto
  have dst_x: "\<forall>dep \<in> set (deps x). getDestination dep = x"
    using Cons.prems(6) reloadable_destination by fastforce
  have dst_xs: "\<forall>r \<in> set xs. \<forall>dep \<in> set (deps r). getDestination dep = r"
    using Cons.prems(6) reloadable_destination by fastforce
  have x: "x \<notin> set xs" using Cons.prems(1) by simp
  have disj: "\<forall>r \<in> set xs. set (deps r) \<inter> set (deps x) = {}"
    using dst_x dst_xs x by fastforce
  have ih: "loadDependencesWalk ?ks instOp (map (\<lambda>r. (r, G r)) xs) ?prob' =
         Inr (?prob'\<lparr>insertedDependences :=
                     insertedDependences ?prob' @ concat (map (\<lambda>r. filter isAuxiliary (deps r)) xs),
                   dependenceProperty :=
                     (\<lambda>dep. if \<exists>r \<in> set xs. dep \<in> set (deps r) then dependenceProperty P dep
                            else dependenceProperty ?prob' dep)\<rparr>)"
  proof (intro Cons.IH)
    show "distinct xs" using Cons.prems(1) by simp
    show "\<forall>r \<in> set xs. distinct (deps r)" using Cons.prems(2) by simp
    show "\<forall>r \<in> set xs. set (deps r) \<inter> set (insertedDependences ?prob') = {}"
      using Cons.prems(3) disj by auto
    show "\<forall>r \<in> set xs. \<forall>dep \<in> set (deps r). dependenceProperty ?prob' dep = (\<lambda>k. None)"
      using Cons.prems(4) disj by auto
    show "\<forall>r \<in> set xs. \<forall>dep \<in> set (deps r). slotsOk names (dependenceProperty P dep)"
      using Cons.prems(5) by simp
    show "\<forall>r \<in> set xs. \<forall>dep \<in> set (deps r).
           reloadable instOp (operations ?prob') opNames r (length (operands (G r))) dep"
      using Cons.prems(6) by simp
    show "\<forall>r \<in> set xs. dependences (G r) =
           (if emittedRecords ?ks P opNames (idx r) (deps r) = [] then None
            else Some (emittedRecords ?ks P opNames (idx r) (deps r)))"
      using Cons.prems(7) by simp
  qed
  have eq: "?prob'\<lparr>insertedDependences :=
                     insertedDependences ?prob' @ concat (map (\<lambda>r. filter isAuxiliary (deps r)) xs),
                   dependenceProperty :=
                     (\<lambda>dep. if \<exists>r \<in> set xs. dep \<in> set (deps r) then dependenceProperty P dep
                            else dependenceProperty ?prob' dep)\<rparr> =
            prob\<lparr>insertedDependences :=
                     insertedDependences prob @ concat (map (\<lambda>r. filter isAuxiliary (deps r)) (x # xs)),
                   dependenceProperty :=
                     (\<lambda>dep. if \<exists>r \<in> set (x # xs). dep \<in> set (deps r) then dependenceProperty P dep
                            else dependenceProperty prob dep)\<rparr>"
    by (intro Problem.equality) (auto simp: fun_eq_iff)
  show ?case
    unfolding list.map loadDependencesWalk_records [OF recs] step sum.case ih eq ..
qed

lemma sorted_split:
  fixes f :: "'a \<Rightarrow> nat"
  shows "sorted (map f xs) \<Longrightarrow> filter (\<lambda>x. f x < n) xs @ filter (\<lambda>x. \<not> f x < n) xs = xs"
proof (induction xs)
  case Nil
  show ?case by simp
next
  case (Cons x xs)
  show ?case
  proof (cases "f x < n")
    case True
    with Cons show ?thesis by simp
  next
    case False
    with Cons.prems have "\<forall>y \<in> set xs. \<not> f y < n" by fastforce
    then have "filter (\<lambda>x. f x < n) xs = []" "filter (\<lambda>x. \<not> f x < n) xs = xs"
      by (simp_all add: filter_empty_conv filter_id_conv)
    with False show ?thesis by simp
  qed
qed

lemma sorted_groups:
  fixes f :: "'a \<Rightarrow> nat"
  shows "sorted (map f xs) \<Longrightarrow> \<forall>x \<in> set xs. f x < n \<Longrightarrow>
   concat (map (\<lambda>k. filter (\<lambda>x. f x = k) xs) [0 ..< n]) = xs"
proof (induction n arbitrary: xs)
  case 0
  then show ?case by simp
next
  case (Suc n)
  let ?ys = "filter (\<lambda>x. f x < n) xs"
  have "sorted (map f ?ys)"
    using Suc.prems(1) by (simp add: sorted_filter)
  then have ih: "concat (map (\<lambda>k. filter (\<lambda>x. f x = k) ?ys) [0 ..< n]) = ?ys"
    by (intro Suc.IH) simp_all
  have same: "map (\<lambda>k. filter (\<lambda>x. f x = k) ?ys) [0 ..< n] =
              map (\<lambda>k. filter (\<lambda>x. f x = k) xs) [0 ..< n]"
    by (auto intro!: filter_cong)
  have last: "filter (\<lambda>x. f x = n) xs = filter (\<lambda>x. \<not> f x < n) xs"
    using Suc.prems(2) by (intro filter_cong) auto
  have "concat (map (\<lambda>k. filter (\<lambda>x. f x = k) xs) [0 ..< Suc n]) =
        concat (map (\<lambda>k. filter (\<lambda>x. f x = k) xs) [0 ..< n]) @ filter (\<lambda>x. f x = n) xs"
    by simp
  also have "\<dots> = ?ys @ filter (\<lambda>x. \<not> f x < n) xs"
    unfolding same [symmetric] ih last ..
  also have "\<dots> = xs"
    by (rule sorted_split [OF Suc.prems(1)])
  finally show ?case .
qed

lemma zip_map_same: "zip xs (map g xs) = map (\<lambda>x. (x, g x)) xs"
  by (induction xs) simp_all

lemma saved_lookup:
  assumes ops: "operations P = map OperationRef [0 ..< n]"
    and nr: "namesResolve f P"
    and src: "src \<in> set (operations P)" and name: "f src = Some name"
  shows "lookupSymbolIn (savedInstance opKinds oprKinds depKinds instKinds P iN pN f) name = Some src"
proof -
  let ?G = "savedOperation opKinds depKinds P (assignNames f P)"
  let ?oprOps = "map (\<lambda>opr. \<lparr>oprName = opr,
                    oprProperties = saveOperatorTypeProperties oprKinds P opr\<rparr>) (operatorTypes P)"
  from src ops obtain k where k: "src = OperationRef k" "k < n" by auto
  have named: "\<forall>s \<in> auxiliarySources P. f s \<noteq> None"
    using nr by (simp add: namesResolve_def)
  have sym: "sym_name (?G op) = f op" if "op \<in> set (operations P)" for op
    using assignNames_provided [OF named that] by (simp add: savedOperation_def)
  have notopr: "name \<notin> oprName ` set ?oprOps"
    using nr src name by (force simp: namesResolve_def)
  have len: "k < length (map ?G (operations P))"
    using k ops by simp
  have at: "map ?G (operations P) ! j = ?G (OperationRef j)" if "j < n" for j
    using that ops by simp
  have mem: "OperationRef j \<in> set (operations P)" if "j < n" for j
    using that ops by simp
  have here: "sym_name (map ?G (operations P) ! k) = Some name"
    using at [OF k(2)] sym [OF src] name k(1) by simp
  have before: "\<forall>k' < k. sym_name (map ?G (operations P) ! k') \<noteq> Some name"
  proof (intro allI impI notI)
    fix k' assume k': "k' < k" and eq: "sym_name (map ?G (operations P) ! k') = Some name"
    from k' k(2) have k'n: "k' < n" by simp
    from eq at [OF k'n] sym [OF mem [OF k'n]] have "f (OperationRef k') = Some name" by simp
    with name k(1) have "f (OperationRef k') \<noteq> None \<and> f (OperationRef k') = f (OperationRef k)"
      by simp
    with nr mem [OF k'n] mem [OF k(2)] have "OperationRef k' = OperationRef k"
      unfolding namesResolve_def by blast
    with k' show False by simp
  qed
  have "lookupSymbol (map OperatorTypeBodyOp ?oprOps @ map OperationBodyOp (map ?G (operations P)))
          0 0 name = Some (OperationRef (0 + k))"
    unfolding lookupSymbol_operatorTypes [OF notopr]
    by (rule lookupSymbol_operations [OF len here before])
  then show ?thesis
    by (simp add: lookupSymbolIn_def savedInstance_def k(1))
qed

lemma wellFormedD:
  assumes "wellFormed opNs oprNs depNs instNs prob"
  shows "operations prob = map OperationRef [0 ..< length (walkOperationOps (containingOp prob))]"
    and "list_all (\<lambda>opOp. length (operands opOp) < 2^32) (walkOperationOps (containingOp prob))"
    and "distinct (operatorTypes prob)"
    and "distinct (insertedDependences prob)"
    and "\<forall>dep \<in> set (insertedDependences prob).
           \<exists>src \<in> set (operations prob). \<exists>dst \<in> set (operations prob). dep = Auxiliary src dst"
    and "sorted (map destinationRank (insertedDependences prob))"
    and "slotsOk instNs (instanceProperty prob)"
    and "\<forall>opr. slotsOk oprNs (operatorTypeProperty prob opr)"
    and "\<forall>op. slotsOk opNs (operationProperty prob op)"
    and "\<forall>dep. slotsOk depNs (dependenceProperty prob dep)"
    and "\<forall>opr. opr \<notin> set (operatorTypes prob) \<longrightarrow> operatorTypeProperty prob opr = (\<lambda>k. None)"
    and "\<forall>op. op \<notin> set (operations prob) \<longrightarrow> operationProperty prob op = (\<lambda>k. None)"
    and "\<forall>dep. (\<forall>op \<in> set (operations prob). dep \<notin> set (getDependences prob op)) \<longrightarrow>
           dependenceProperty prob dep = (\<lambda>k. None)"
  using assms unfolding wellFormed_def by - ((elim conjE, assumption)+)

lemma saved_reloadable:
  fixes P :: "(string \<times> 'v) Problem"
  assumes wf: "wellFormed opNs oprNs depNs instNs P"
    and nr: "namesResolve f P"
    and r: "r \<in> set (operations P)" and dep: "dep \<in> set (getDependences P r)"
  shows "reloadable (savedInstance opKinds oprKinds depKinds instKinds P iN pN f)
           (operations P) (assignNames f P) r (length (getOperands (containingOp P) r)) dep"
proof -
  let ?n = "length (walkOperationOps (containingOp P))"
  note ops = wellFormedD(1) [OF wf]
  note bound = wellFormedD(2) [OF wf]
  note aux = wellFormedD(5) [OF wf]
  from dep consider
    (data) i where "dep = DefUse r i" "i < length (getOperands (containingOp P) r)"
    | (auxiliary) "dep \<in> set (insertedDependences P)" "getDestination dep = r"
    by (auto simp: getDependences_def)
  then show ?thesis
  proof cases
    case data
    from r ops obtain k where k: "r = OperationRef k" "k < ?n" by auto
    then have "getOperands (containingOp P) r = operands (walkOperationOps (containingOp P) ! k)"
      by (simp add: getOperands_def getOperationOp_def)
    with bound k have "length (getOperands (containingOp P) r) < 2^32"
      by (simp add: list_all_length)
    with data show ?thesis
      by (simp add: reloadable_def)
  next
    case auxiliary
    with aux obtain src dst where sd: "dep = Auxiliary src dst" "src \<in> set (operations P)"
      by blast
    with auxiliary have dst: "dst = r" by (simp add: getDestination_def)
    have "src \<in> auxiliarySources P"
      unfolding auxiliarySources_def using r dep sd(1) dst by blast
    moreover have named: "\<forall>s \<in> auxiliarySources P. f s \<noteq> None"
      using nr by (simp add: namesResolve_def)
    ultimately obtain name where name: "f src = Some name" by auto
    have "map_of (assignNames f P) src = Some name"
      using assignNames_provided [OF named sd(2)] name by simp
    moreover have "lookupSymbolIn (savedInstance opKinds oprKinds depKinds instKinds P iN pN f) name
                     = Some src"
      by (rule saved_lookup [OF ops nr sd(2) name])
    ultimately show ?thesis
      using sd dst r by (auto simp: reloadable_def)
  qed
qed

lemma distinct_getDependences:
  "distinct (insertedDependences prob) \<Longrightarrow> distinct (getDependences prob op)"
  by (auto simp: getDependences_def distinct_map inj_on_def isAuxiliary_def)

lemma destinationRank_groups:
  assumes ops: "operations prob = map OperationRef [0 ..< n]"
    and aux: "\<forall>dep \<in> set (insertedDependences prob).
           \<exists>src \<in> set (operations prob). \<exists>dst \<in> set (operations prob). dep = Auxiliary src dst"
    and sorted: "sorted (map destinationRank (insertedDependences prob))"
  shows "concat (map (\<lambda>r. filter isAuxiliary (getDependences prob r)) (operations prob)) =
           insertedDependences prob"
proof -
  have rank: "\<forall>dep \<in> set (insertedDependences prob). destinationRank dep < n"
    using aux ops by (fastforce simp: destinationRank_def getDestination_def)
  have each: "filter isAuxiliary (getDependences prob (OperationRef k)) =
              filter (\<lambda>dep. destinationRank dep = k) (insertedDependences prob)" for k
    unfolding getDependences_auxiliary
    using aux ops
    by (intro filter_cong) (fastforce simp: destinationRank_def getDestination_def isAuxiliary_def)+
  have "concat (map (\<lambda>r. filter isAuxiliary (getDependences prob r)) (operations prob)) =
        concat (map (\<lambda>k. filter (\<lambda>dep. destinationRank dep = k) (insertedDependences prob)) [0 ..< n])"
    unfolding ops by (simp add: comp_def each)
  also have "\<dots> = insertedDependences prob"
    by (rule sorted_groups [OF sorted rank])
  finally show ?thesis .
qed

lemma round_trip_saved:
  fixes P :: "(string \<times> 'v) Problem"
  assumes wf: "wellFormed opNs oprNs depNs instNs P"
    and nr: "namesResolve f P"
  shows "loadProblem (map OperationProperty opNs) (map OperatorTypeProperty oprNs)
           (map DependenceProperty depNs) (map InstanceProperty instNs)
           (savedInstance (map OperationProperty opNs) (map OperatorTypeProperty oprNs)
              (map DependenceProperty depNs) (map InstanceProperty instNs) P iN pN f) =
         Inr (P\<lparr>containingOp :=
                savedInstance (map OperationProperty opNs) (map OperatorTypeProperty oprNs)
                  (map DependenceProperty depNs) (map InstanceProperty instNs) P iN pN f\<rparr>)"
proof -
  let ?opKs = "map OperationProperty opNs :: (string \<times> 'v, (string \<times> 'v) Problem, OpRef) PropertyKind list"
  let ?oprKs = "map OperatorTypeProperty oprNs :: (string \<times> 'v, (string \<times> 'v) Problem, string) PropertyKind list"
  let ?depKs = "map DependenceProperty depNs :: (string \<times> 'v, (string \<times> 'v) Problem, Dependence) PropertyKind list"
  let ?instKs = "map InstanceProperty instNs :: (string \<times> 'v, (string \<times> 'v) Problem, unit) PropertyKind list"
  let ?D = "savedInstance ?opKs ?oprKs ?depKs ?instKs P iN pN f"
  let ?names = "assignNames f P"
  let ?G = "savedOperation ?opKs ?depKs P ?names"
  note ops = wellFormedD(1) [OF wf]
  have body: "body ?D =
     map OperatorTypeBodyOp
       (map (\<lambda>opr. \<lparr>oprName = opr, oprProperties = saveSlots oprNs (operatorTypeProperty P opr)\<rparr>)
          (operatorTypes P)) @
     map OperationBodyOp (map ?G (operations P))"
    by (simp add: savedInstance_def saveOperatorTypeProperties_slots)
  have oprOps: "walkOperatorTypeOps ?D =
     map (\<lambda>opr. \<lparr>oprName = opr, oprProperties = saveSlots oprNs (operatorTypeProperty P opr)\<rparr>)
       (operatorTypes P)"
    by (rule walkOperatorTypeOps_saved [OF body])
  have opOps: "walkOperationOps ?D = map ?G (operations P)"
    by (rule walkOperationOps_saved [OF body])
  have len: "map OperationRef [0 ..< length (operations P)] = operations P"
    using ops by simp
  have refs: "operationOpsWithRefs ?D = map (\<lambda>r. (r, ?G r)) (operations P)"
    unfolding operationOpsWithRefs_def opOps length_map len by (rule zip_map_same)
  have inst: "instProperties ?D = saveSlots instNs (instanceProperty P)"
    by (simp add: savedInstance_def saveInstanceProperties_slots)
  let ?prob1 = "(Problem_get ?D)\<lparr>instanceProperty := instanceProperty P\<rparr>"
  have p1: "loadInstanceProperties ?instKs (Problem_get ?D) (instProperties ?D) = ?prob1"
    unfolding inst loadInstanceProperties_slots
    using loadSlots_saveSlots [OF wellFormedD(7) [OF wf]]
    by (simp add: Problem_get_def)
  let ?prob2 = "?prob1\<lparr>operatorTypes := operatorTypes P,
                         operatorTypeProperty := operatorTypeProperty P\<rparr>"
  have "foldl (\<lambda>prob oprOp.
            loadOperatorTypeProperties ?oprKs
              (insertOperatorType prob (oprName oprOp)) (oprName oprOp) (oprProperties oprOp))
           ?prob1 (walkOperatorTypeOps ?D) =
        ?prob1\<lparr>operatorTypes := operatorTypes ?prob1 @ operatorTypes P,
                operatorTypeProperty :=
                  (\<lambda>opr. if opr \<in> set (operatorTypes P) then operatorTypeProperty P opr
                         else operatorTypeProperty ?prob1 opr)\<rparr>"
    unfolding oprOps
    using wellFormedD(3,8) [OF wf]
    by (intro reload_operatorTypes) (simp_all add: Problem_get_def)
  also have "\<dots> = ?prob2"
    using wellFormedD(11) [OF wf]
    by (intro Problem.equality) (auto simp: fun_eq_iff Problem_get_def)
  finally have p2: "foldl (\<lambda>prob oprOp.
            loadOperatorTypeProperties ?oprKs
              (insertOperatorType prob (oprName oprOp)) (oprName oprOp) (oprProperties oprOp))
           ?prob1 (walkOperatorTypeOps ?D) = ?prob2" .
  let ?prob3 = "?prob2\<lparr>operations := operations P, operationProperty := operationProperty P\<rparr>"
  have "foldl (\<lambda>prob (opRef, opOp).
            loadOperationProperties ?opKs (insertOperation prob opRef) opRef (opProperties opOp))
           ?prob2 (operationOpsWithRefs ?D) =
        ?prob2\<lparr>operations := operations ?prob2 @ operations P,
                operationProperty :=
                  (\<lambda>op. if op \<in> set (operations P) then operationProperty P op
                        else operationProperty ?prob2 op)\<rparr>"
    unfolding refs
    using wellFormedD(9) [OF wf] ops
    by (intro reload_operations)
       (simp_all add: Problem_get_def savedOperation_def saveOperationProperties_slots distinct_map inj_on_def)
  also have "\<dots> = ?prob3"
    using wellFormedD(12) [OF wf]
    by (intro Problem.equality) (auto simp: fun_eq_iff Problem_get_def)
  finally have p3: "foldl (\<lambda>prob (opRef, opOp).
            loadOperationProperties ?opKs (insertOperation prob opRef) opRef (opProperties opOp))
           ?prob2 (operationOpsWithRefs ?D) = ?prob3" .
  have "loadDependencesWalk ?depKs ?D (map (\<lambda>r. (r, ?G r)) (operations P)) ?prob3 =
        Inr (?prob3\<lparr>insertedDependences :=
                       insertedDependences ?prob3 @
                       concat (map (\<lambda>r. filter isAuxiliary (getDependences P r)) (operations P)),
                     dependenceProperty :=
                       (\<lambda>dep. if \<exists>r \<in> set (operations P). dep \<in> set (getDependences P r)
                              then dependenceProperty P dep
                              else dependenceProperty ?prob3 dep)\<rparr>)"
  proof (rule reload_walk [where idx = "\<lambda>r. of_nat (length (getOperands (containingOp P) r))"])
    show "distinct (operations P)"
      using ops by (simp add: distinct_map inj_on_def)
    show "\<forall>r \<in> set (operations P). distinct (getDependences P r)"
      using wellFormedD(4) [OF wf] by (simp add: distinct_getDependences)
    show "\<forall>r \<in> set (operations P). set (getDependences P r) \<inter> set (insertedDependences ?prob3) = {}"
      by (simp add: Problem_get_def)
    show "\<forall>r \<in> set (operations P). \<forall>dep \<in> set (getDependences P r).
            dependenceProperty ?prob3 dep = (\<lambda>k. None)"
      by (simp add: Problem_get_def)
    show "\<forall>r \<in> set (operations P). \<forall>dep \<in> set (getDependences P r).
            slotsOk depNs (dependenceProperty P dep)"
      using wellFormedD(10) [OF wf] by simp
    show "\<forall>r \<in> set (operations P). \<forall>dep \<in> set (getDependences P r).
            reloadable ?D (operations ?prob3) ?names r (length (operands (?G r))) dep"
      using saved_reloadable [OF wf nr]
      by (simp add: savedOperation_def)
    show "\<forall>r \<in> set (operations P). dependences (?G r) =
           (if emittedRecords ?depKs P ?names (of_nat (length (getOperands (containingOp P) r)))
                 (getDependences P r) = [] then None
            else Some (emittedRecords ?depKs P ?names
                    (of_nat (length (getOperands (containingOp P) r))) (getDependences P r)))"
      by (simp add: savedOperation_def savedRecords_def)
  qed
  also have "?prob3\<lparr>insertedDependences :=
                       insertedDependences ?prob3 @
                       concat (map (\<lambda>r. filter isAuxiliary (getDependences P r)) (operations P)),
                     dependenceProperty :=
                       (\<lambda>dep. if \<exists>r \<in> set (operations P). dep \<in> set (getDependences P r)
                              then dependenceProperty P dep
                              else dependenceProperty ?prob3 dep)\<rparr> = P\<lparr>containingOp := ?D\<rparr>"
    using wellFormedD(13) [OF wf]
      destinationRank_groups [OF ops wellFormedD(5) [OF wf] wellFormedD(6) [OF wf]]
    by (intro Problem.equality) (auto simp: fun_eq_iff Problem_get_def)
  finally have walk: "loadDependencesWalk ?depKs ?D (map (\<lambda>r. (r, ?G r)) (operations P)) ?prob3 =
        Inr (P\<lparr>containingOp := ?D\<rparr>)" .
  show ?thesis
    unfolding loadProblem_def Let_def p1 p2 p3 unfolding refs walk ..
qed

subsection \<open>Loading a valid instance\<close>

text \<open>
  Symbol lookup in an instance without duplicate names finds the operation that carries
  the name. On a valid instance no \<open>assert\<close> of \<open>loadProblem\<close> fails, and the Problem it
  returns is well formed.
\<close>

lemma map_filter_Cons_Some: "f x = Some y \<Longrightarrow> List.map_filter f (x # xs) = y # List.map_filter f xs"
  by (simp add: List.map_filter_def)

lemma map_filter_Cons_None: "f x = None \<Longrightarrow> List.map_filter f (x # xs) = List.map_filter f xs"
  by (simp add: List.map_filter_def)

lemma map_filter_Nil: "List.map_filter f [] = []"
  by (simp add: List.map_filter_def)

lemma set_map_filter: "set (List.map_filter f xs) = {y. \<exists>x \<in> set xs. f x = Some y}"
proof (induction xs)
  case Nil
  show ?case by (simp add: map_filter_Nil)
next
  case (Cons x xs)
  show ?case
  proof (cases "f x")
    case None
    with Cons show ?thesis by (auto simp: map_filter_Cons_None)
  next
    case (Some y)
    with Cons show ?thesis by (auto simp: map_filter_Cons_Some)
  qed
qed

lemma operationOps_mem:
  "opOp \<in> set (List.map_filter (\<lambda>bodyOp. case bodyOp of OperationBodyOp opOp \<Rightarrow> Some opOp | _ \<Rightarrow> None) ops)
     \<Longrightarrow> OperationBodyOp opOp \<in> set ops"
proof -
  assume "opOp \<in> set (List.map_filter (\<lambda>bodyOp. case bodyOp of OperationBodyOp opOp \<Rightarrow> Some opOp | _ \<Rightarrow> None) ops)"
  then obtain x where x: "x \<in> set ops"
    "(case x of OperationBodyOp opOp \<Rightarrow> Some opOp | _ \<Rightarrow> None) = Some opOp"
    unfolding set_map_filter by blast
  from x(2) have "x = OperationBodyOp opOp" by (cases x) simp_all
  with x(1) show ?thesis by simp
qed

lemma operatorTypeOps_mem:
  "oprOp \<in> set (List.map_filter (\<lambda>bodyOp. case bodyOp of OperatorTypeBodyOp oprOp \<Rightarrow> Some oprOp | _ \<Rightarrow> None) ops)
     \<Longrightarrow> OperatorTypeBodyOp oprOp \<in> set ops"
proof -
  assume "oprOp \<in> set (List.map_filter (\<lambda>bodyOp. case bodyOp of OperatorTypeBodyOp oprOp \<Rightarrow> Some oprOp | _ \<Rightarrow> None) ops)"
  then obtain x where x: "x \<in> set ops"
    "(case x of OperatorTypeBodyOp oprOp \<Rightarrow> Some oprOp | _ \<Rightarrow> None) = Some oprOp"
    unfolding set_map_filter by blast
  from x(2) have "x = OperatorTypeBodyOp oprOp" by (cases x) simp_all
  with x(1) show ?thesis by simp
qed

lemma symbolNames_operation:
  "OperationBodyOp opOp \<in> set ops \<Longrightarrow> sym_name opOp = Some s \<Longrightarrow>
   s \<in> set (List.map_filter
       (\<lambda>bodyOp. case bodyOp of
                    OperatorTypeBodyOp oprOp \<Rightarrow> Some (oprName oprOp)
                  | OperationBodyOp opOp \<Rightarrow> sym_name opOp) ops)"
  unfolding set_map_filter by force

lemma symbolNames_operatorType:
  "OperatorTypeBodyOp oprOp \<in> set ops \<Longrightarrow>
   oprName oprOp \<in> set (List.map_filter
       (\<lambda>bodyOp. case bodyOp of
                    OperatorTypeBodyOp oprOp \<Rightarrow> Some (oprName oprOp)
                  | OperationBodyOp opOp \<Rightarrow> sym_name opOp) ops)"
  unfolding set_map_filter by force

lemma symbolNames_no_operation:
  assumes "s \<notin> set (List.map_filter
       (\<lambda>bodyOp. case bodyOp of
                    OperatorTypeBodyOp oprOp \<Rightarrow> Some (oprName oprOp)
                  | OperationBodyOp opOp \<Rightarrow> sym_name opOp) ops)"
  shows "\<not> (k < length (List.map_filter (\<lambda>bodyOp. case bodyOp of OperationBodyOp opOp \<Rightarrow> Some opOp | _ \<Rightarrow> None) ops) \<and>
          sym_name (List.map_filter (\<lambda>bodyOp. case bodyOp of OperationBodyOp opOp \<Rightarrow> Some opOp | _ \<Rightarrow> None) ops ! k) = Some s)"
proof
  let ?ops = "List.map_filter (\<lambda>bodyOp. case bodyOp of OperationBodyOp opOp \<Rightarrow> Some opOp | _ \<Rightarrow> None) ops"
  assume h: "k < length ?ops \<and> sym_name (?ops ! k) = Some s"
  then have "?ops ! k \<in> set ?ops" by simp
  then have "OperationBodyOp (?ops ! k) \<in> set ops" by (rule operationOps_mem)
  with h assms show False using symbolNames_operation by blast
qed

lemma symbolNames_no_operatorType:
  assumes "s \<notin> set (List.map_filter
       (\<lambda>bodyOp. case bodyOp of
                    OperatorTypeBodyOp oprOp \<Rightarrow> Some (oprName oprOp)
                  | OperationBodyOp opOp \<Rightarrow> sym_name opOp) ops)"
  shows "\<not> (k < length (List.map_filter (\<lambda>bodyOp. case bodyOp of OperatorTypeBodyOp oprOp \<Rightarrow> Some oprOp | _ \<Rightarrow> None) ops) \<and>
          oprName (List.map_filter (\<lambda>bodyOp. case bodyOp of OperatorTypeBodyOp oprOp \<Rightarrow> Some oprOp | _ \<Rightarrow> None) ops ! k) = s)"
proof
  let ?oprs = "List.map_filter (\<lambda>bodyOp. case bodyOp of OperatorTypeBodyOp oprOp \<Rightarrow> Some oprOp | _ \<Rightarrow> None) ops"
  assume h: "k < length ?oprs \<and> oprName (?oprs ! k) = s"
  then have "?oprs ! k \<in> set ?oprs" by simp
  then have "OperatorTypeBodyOp (?oprs ! k) \<in> set ops" by (rule operatorTypeOps_mem)
  with h assms show False using symbolNames_operatorType by blast
qed

lemma lookupSymbol_sound:
  "lookupSymbol ops i j s = Some (OperationRef m) \<Longrightarrow>
   \<exists>k. m = j + k \<and>
       k < length (List.map_filter (\<lambda>bodyOp. case bodyOp of OperationBodyOp opOp \<Rightarrow> Some opOp | _ \<Rightarrow> None) ops) \<and>
       sym_name (List.map_filter (\<lambda>bodyOp. case bodyOp of OperationBodyOp opOp \<Rightarrow> Some opOp | _ \<Rightarrow> None) ops ! k) = Some s"
proof (induction ops i j s rule: lookupSymbol.induct)
  case (1 i j s)
  then show ?case by simp
next
  case (2 oprOp ops i j s)
  then show ?case
    by (simp add: map_filter_Cons_None split: if_splits)
next
  case (3 opOp ops i j s)
  show ?case
  proof (cases "sym_name opOp = Some s")
    case True
    with 3 show ?thesis
      by (intro exI [of _ 0]) (simp add: map_filter_Cons_Some)
  next
    case False
    with 3 obtain k where "m = Suc j + k"
      "k < length (List.map_filter (\<lambda>bodyOp. case bodyOp of OperationBodyOp opOp \<Rightarrow> Some opOp | _ \<Rightarrow> None) ops)"
      "sym_name (List.map_filter (\<lambda>bodyOp. case bodyOp of OperationBodyOp opOp \<Rightarrow> Some opOp | _ \<Rightarrow> None) ops ! k) = Some s"
      by auto
    then show ?thesis
      by (intro exI [of _ "Suc k"]) (simp add: map_filter_Cons_Some)
  qed
qed

lemma lookupSymbolIn_sound:
  "lookupSymbolIn instOp s = Some (OperationRef m) \<Longrightarrow>
   m < length (walkOperationOps instOp) \<and> sym_name (walkOperationOps instOp ! m) = Some s"
  using lookupSymbol_sound [of "body instOp" 0 0 s m]
  by (auto simp: lookupSymbolIn_def walkOperationOps_def)

lemma lookupSymbol_complete:
  assumes "distinct (List.map_filter
       (\<lambda>bodyOp. case bodyOp of
                    OperatorTypeBodyOp oprOp \<Rightarrow> Some (oprName oprOp)
                  | OperationBodyOp opOp \<Rightarrow> sym_name opOp) ops)"
  shows "(k < length (List.map_filter (\<lambda>bodyOp. case bodyOp of OperationBodyOp opOp \<Rightarrow> Some opOp | _ \<Rightarrow> None) ops) \<and>
          sym_name (List.map_filter (\<lambda>bodyOp. case bodyOp of OperationBodyOp opOp \<Rightarrow> Some opOp | _ \<Rightarrow> None) ops ! k) = Some s \<longrightarrow>
          lookupSymbol ops i j s = Some (OperationRef (j + k))) \<and>
         (k < length (List.map_filter (\<lambda>bodyOp. case bodyOp of OperatorTypeBodyOp oprOp \<Rightarrow> Some oprOp | _ \<Rightarrow> None) ops) \<and>
          oprName (List.map_filter (\<lambda>bodyOp. case bodyOp of OperatorTypeBodyOp oprOp \<Rightarrow> Some oprOp | _ \<Rightarrow> None) ops ! k) = s \<longrightarrow>
          lookupSymbol ops i j s = Some (OperatorTypeRef (i + k)))"
  using assms
proof (induction ops i j s arbitrary: k rule: lookupSymbol.induct)
  case (1 i j s)
  show ?case by (simp add: map_filter_Nil)
next
  case (2 oprOp ops i j s)
  let ?names = "List.map_filter
       (\<lambda>bodyOp. case bodyOp of
                    OperatorTypeBodyOp oprOp \<Rightarrow> Some (oprName oprOp)
                  | OperationBodyOp opOp \<Rightarrow> sym_name opOp) ops"
  from 2(2) have d: "distinct ?names" and fresh: "oprName oprOp \<notin> set ?names"
    by (simp_all add: map_filter_Cons_Some)
  show ?case
  proof (cases "oprName oprOp = s")
    case True
    with fresh have none: "s \<notin> set ?names" by simp
    from symbolNames_no_operation [OF none, of k] symbolNames_no_operatorType [OF none, of "k - 1"] True
    show ?thesis
      by (cases k) (simp_all add: map_filter_Cons_None map_filter_Cons_Some)
  next
    case False
    from 2(1) [OF False d, of k] 2(1) [OF False d, of "k - 1"] False show ?thesis
      by (cases k) (simp_all add: map_filter_Cons_None map_filter_Cons_Some)
  qed
next
  case (3 opOp ops i j s)
  let ?names = "List.map_filter
       (\<lambda>bodyOp. case bodyOp of
                    OperatorTypeBodyOp oprOp \<Rightarrow> Some (oprName oprOp)
                  | OperationBodyOp opOp \<Rightarrow> sym_name opOp) ops"
  from 3(2) have d: "distinct ?names"
    by (cases "sym_name opOp") (simp_all add: map_filter_Cons_Some map_filter_Cons_None)
  show ?case
  proof (cases "sym_name opOp = Some s")
    case True
    with 3(2) have none: "s \<notin> set ?names"
      by (simp add: map_filter_Cons_Some)
    from symbolNames_no_operation [OF none, of "k - 1"] symbolNames_no_operatorType [OF none, of k] True
    show ?thesis
      by (cases k) (simp_all add: map_filter_Cons_None map_filter_Cons_Some)
  next
    case False
    from 3(1) [OF False d, of k] 3(1) [OF False d, of "k - 1"] False show ?thesis
      by (cases k) (simp_all add: map_filter_Cons_None map_filter_Cons_Some)
  qed
qed

lemma load_operatorTypes:
  "\<exists>ots otp.
     foldl (\<lambda>prob oprOp.
              loadOperatorTypeProperties (map OperatorTypeProperty names)
                (insertOperatorType prob (oprName oprOp)) (oprName oprOp) (oprProperties oprOp))
       prob oprOps = prob\<lparr>operatorTypes := ots, operatorTypeProperty := otp\<rparr> \<and>
     set ots = set (operatorTypes prob) \<union> oprName ` set oprOps \<and>
     (distinct (operatorTypes prob) \<longrightarrow> distinct ots) \<and>
     ((\<forall>opr. slotsOk names (operatorTypeProperty prob opr)) \<longrightarrow> (\<forall>opr. slotsOk names (otp opr))) \<and>
     (\<forall>opr. opr \<notin> set ots \<longrightarrow> otp opr = operatorTypeProperty prob opr)"
proof (induction oprOps arbitrary: prob)
  case Nil
  show ?case
    by (intro exI [of _ "operatorTypes prob"] exI [of _ "operatorTypeProperty prob"]) simp
next
  case (Cons x xs)
  let ?ots = "if oprName x \<in> set (operatorTypes prob) then operatorTypes prob
              else operatorTypes prob @ [oprName x]"
  let ?otp = "(operatorTypeProperty prob)
                (oprName x := loadSlots names (operatorTypeProperty prob (oprName x)) (oprProperties x))"
  let ?prob' = "prob\<lparr>operatorTypes := ?ots, operatorTypeProperty := ?otp\<rparr>"
  have step: "loadOperatorTypeProperties (map OperatorTypeProperty names)
                (insertOperatorType prob (oprName x)) (oprName x) (oprProperties x) = ?prob'"
    by (simp add: loadOperatorTypeProperties_slots insertOperatorType_def)
  from Cons.IH [of ?prob'] obtain ots otp where
    f: "foldl (\<lambda>prob oprOp.
              loadOperatorTypeProperties (map OperatorTypeProperty names)
                (insertOperatorType prob (oprName oprOp)) (oprName oprOp) (oprProperties oprOp))
          ?prob' xs = ?prob'\<lparr>operatorTypes := ots, operatorTypeProperty := otp\<rparr>"
    and s: "set ots = set (operatorTypes ?prob') \<union> oprName ` set xs"
    and d: "distinct (operatorTypes ?prob') \<longrightarrow> distinct ots"
    and k: "(\<forall>opr. slotsOk names (operatorTypeProperty ?prob' opr)) \<longrightarrow> (\<forall>opr. slotsOk names (otp opr))"
    and e: "\<forall>opr. opr \<notin> set ots \<longrightarrow> otp opr = operatorTypeProperty ?prob' opr"
    by blast
  have a: "foldl (\<lambda>prob oprOp.
              loadOperatorTypeProperties (map OperatorTypeProperty names)
                (insertOperatorType prob (oprName oprOp)) (oprName oprOp) (oprProperties oprOp))
          prob (x # xs) = prob\<lparr>operatorTypes := ots, operatorTypeProperty := otp\<rparr>"
    unfolding foldl_Cons step f by simp
  have b: "set ots = set (operatorTypes prob) \<union> oprName ` set (x # xs)"
    using s by auto
  have c: "distinct (operatorTypes prob) \<longrightarrow> distinct ots"
    using d by simp
  have g: "(\<forall>opr. slotsOk names (operatorTypeProperty prob opr)) \<longrightarrow> (\<forall>opr. slotsOk names (otp opr))"
  proof
    assume h: "\<forall>opr. slotsOk names (operatorTypeProperty prob opr)"
    then have "\<forall>opr. slotsOk names (operatorTypeProperty ?prob' opr)"
      by (simp add: slotsOk_loadSlots)
    with k show "\<forall>opr. slotsOk names (otp opr)" by blast
  qed
  have h: "\<forall>opr. opr \<notin> set ots \<longrightarrow> otp opr = operatorTypeProperty prob opr"
  proof (intro allI impI)
    fix opr assume n: "opr \<notin> set ots"
    with b have "opr \<noteq> oprName x" by auto
    with e n show "otp opr = operatorTypeProperty prob opr" by simp
  qed
  from a b c g h show ?case by blast
qed

lemma load_operations:
  assumes "distinct (map fst ops)" and "set (map fst ops) \<inter> set (operations prob) = {}"
  shows "\<exists>opp.
     foldl (\<lambda>prob (opRef, opOp).
              loadOperationProperties (map OperationProperty names)
                (insertOperation prob opRef) opRef (opProperties opOp))
       prob ops = prob\<lparr>operations := operations prob @ map fst ops, operationProperty := opp\<rparr> \<and>
     ((\<forall>op. slotsOk names (operationProperty prob op)) \<longrightarrow> (\<forall>op. slotsOk names (opp op))) \<and>
     (\<forall>op. op \<notin> set (map fst ops) \<longrightarrow> opp op = operationProperty prob op)"
  using assms
proof (induction ops arbitrary: prob)
  case Nil
  show ?case
    by (intro exI [of _ "operationProperty prob"]) simp
next
  case (Cons x xs)
  obtain r opOp where x: "x = (r, opOp)" by (cases x)
  let ?opp = "(operationProperty prob)
                (r := loadSlots names (operationProperty prob r) (opProperties opOp))"
  let ?prob' = "prob\<lparr>operations := operations prob @ [r], operationProperty := ?opp\<rparr>"
  from Cons.prems x have new: "r \<notin> set (operations prob)" by auto
  have step: "loadOperationProperties (map OperationProperty names)
                (insertOperation prob r) r (opProperties opOp) = ?prob'"
    using new by (simp add: loadOperationProperties_slots insertOperation_def)
  have "distinct (map fst xs)" "set (map fst xs) \<inter> set (operations ?prob') = {}"
    using Cons.prems x by auto
  from Cons.IH [OF this] obtain opp where
    f: "foldl (\<lambda>prob (opRef, opOp).
              loadOperationProperties (map OperationProperty names)
                (insertOperation prob opRef) opRef (opProperties opOp))
          ?prob' xs = ?prob'\<lparr>operations := operations ?prob' @ map fst xs, operationProperty := opp\<rparr>"
    and k: "(\<forall>op. slotsOk names (operationProperty ?prob' op)) \<longrightarrow> (\<forall>op. slotsOk names (opp op))"
    and e: "\<forall>op. op \<notin> set (map fst xs) \<longrightarrow> opp op = operationProperty ?prob' op"
    by blast
  have a: "foldl (\<lambda>prob (opRef, opOp).
              loadOperationProperties (map OperationProperty names)
                (insertOperation prob opRef) opRef (opProperties opOp))
          prob (x # xs) =
           prob\<lparr>operations := operations prob @ map fst (x # xs), operationProperty := opp\<rparr>"
    unfolding foldl_Cons x prod.case step f by simp
  have g: "(\<forall>op. slotsOk names (operationProperty prob op)) \<longrightarrow> (\<forall>op. slotsOk names (opp op))"
  proof
    assume h: "\<forall>op. slotsOk names (operationProperty prob op)"
    then have "\<forall>op. slotsOk names (operationProperty ?prob' op)"
      by (simp add: slotsOk_loadSlots)
    with k show "\<forall>op. slotsOk names (opp op)" by blast
  qed
  have h: "\<forall>op. op \<notin> set (map fst (x # xs)) \<longrightarrow> opp op = operationProperty prob op"
    using e x by auto
  from a g h show ?case by blast
qed

lemma map_fst_operationOpsWithRefs:
  "map fst (operationOpsWithRefs instOp) = map OperationRef [0 ..< length (walkOperationOps instOp)]"
  by (simp add: operationOpsWithRefs_def)

lemma walkInvariant_mono:
  "walkInvariant depNs base b prob \<Longrightarrow> b \<le> b' \<Longrightarrow> walkInvariant depNs base b' prob"
  unfolding walkInvariant_def by (elim exE conjE, intro exI conjI) (assumption | fastforce)+

lemma resolvesToOperation_lookup:
  "resolvesToOperation instOp ref \<Longrightarrow> \<exists>j. lookupSymbolIn instOp ref = Some (OperationRef j)"
  by (auto simp: resolvesToOperation_def split: option.splits OpRef.splits)

lemma loadDependence_invariant:
  fixes base :: "(string \<times> 'v) Problem"
  assumes inv: "walkInvariant depNs base k prob"
    and ops: "operations base = map OperationRef [0 ..< length (walkOperationOps (containingOp base))]"
    and k: "k < length (walkOperationOps (containingOp base))"
    and opOp: "opOp = walkOperationOps (containingOp base) ! k"
    and ok: "loadable (containingOp base) opOp dep"
  shows "\<exists>prob'. loadDependence (map DependenceProperty depNs) (containingOp base) (OperationRef k)
                    opOp prob dep = Inr prob' \<and>
                 walkInvariant depNs base k prob'"
proof -
  let ?D = "containingOp base"
  let ?r = "OperationRef k"
  from inv obtain ins dp where
    p: "prob = base\<lparr>insertedDependences := ins, dependenceProperty := dp\<rparr>"
    and d: "distinct ins"
    and f: "\<forall>dep \<in> set ins. \<exists>src \<in> set (operations base). \<exists>dst \<in> set (operations base).
           dep = Auxiliary src dst \<and> (\<exists>name. lookupSymbolIn ?D name = Some src)"
    and b: "\<forall>dep \<in> set ins. destinationRank dep \<le> k"
    and s: "sorted (map destinationRank ins)"
    and o: "\<forall>dep. slotsOk depNs (dp dep)"
    and e: "\<forall>dep. dp dep \<noteq> (\<lambda>k. None) \<longrightarrow>
           dep \<in> set ins \<or>
           (\<exists>op \<in> set (operations base). \<exists>i < length (getOperands ?D op). dep = DefUse op i)"
    unfolding walkInvariant_def by blast
  have r: "?r \<in> set (operations base)" using ops k by simp
  have operands: "getOperands ?D ?r = operands opOp"
    using k opOp by (simp add: getOperands_def getOperationOp_def)
  show ?thesis
  proof (cases "sourceRef dep")
    case None
    let ?i = "unat (operandIdx dep)"
    let ?dp = "dp(DefUse ?r ?i := loadSlots depNs (dp (DefUse ?r ?i)) (depProperties dep))"
    from ok None have i: "?i < length (operands opOp)" by (simp add: loadable_def)
    have load: "loadDependence (map DependenceProperty depNs) ?D ?r opOp prob dep =
                  Inr (base\<lparr>insertedDependences := ins, dependenceProperty := ?dp\<rparr>)"
      using None i by (simp add: loadDependence_def getOpOperand_def loadDependenceProperties_slots p)
    have o': "\<forall>dep. slotsOk depNs (?dp dep)"
      using o by (simp add: slotsOk_loadSlots)
    have e': "\<forall>dep. ?dp dep \<noteq> (\<lambda>k. None) \<longrightarrow>
           dep \<in> set ins \<or>
           (\<exists>op \<in> set (operations base). \<exists>i < length (getOperands ?D op). dep = DefUse op i)"
    proof (intro allI impI)
      fix x assume x: "?dp x \<noteq> (\<lambda>k. None)"
      show "x \<in> set ins \<or>
           (\<exists>op \<in> set (operations base). \<exists>i < length (getOperands ?D op). x = DefUse op i)"
      proof (cases "x = DefUse ?r ?i")
        case True
        with r i operands show ?thesis by auto
      next
        case False
        with x have "dp x \<noteq> (\<lambda>k. None)" by simp
        with e show ?thesis by blast
      qed
    qed
    have "walkInvariant depNs base k (base\<lparr>insertedDependences := ins, dependenceProperty := ?dp\<rparr>)"
      unfolding walkInvariant_def
      using d f b s o' e' by (intro exI [of _ ins] exI [of _ ?dp] conjI) simp_all
    with load show ?thesis by blast
  next
    case (Some ref)
    with ok have "resolvesToOperation ?D ref" by (simp add: loadable_def)
    then obtain j where j: "lookupSymbolIn ?D ref = Some (OperationRef j)"
      using resolvesToOperation_lookup by blast
    from lookupSymbolIn_sound [OF j] have jn: "j < length (walkOperationOps ?D)" by simp
    let ?dep = "Auxiliary (OperationRef j) ?r"
    let ?ins = "if ?dep \<in> set ins then ins else ins @ [?dep]"
    let ?dp = "dp(?dep := loadSlots depNs (dp ?dep) (depProperties dep))"
    have src: "OperationRef j \<in> set (operations base)" using ops jn by simp
    have load: "loadDependence (map DependenceProperty depNs) ?D ?r opOp prob dep =
                  Inr (base\<lparr>insertedDependences := ?ins, dependenceProperty := ?dp\<rparr>)"
      using Some j src r
      by (simp add: loadDependence_def insertDependence_def getSource_def getDestination_def
            loadDependenceProperties_slots p)
    have rank: "destinationRank ?dep = k"
      by (simp add: destinationRank_def getDestination_def)
    have d': "distinct ?ins" using d by simp
    have f': "\<forall>dep \<in> set ?ins. \<exists>src \<in> set (operations base). \<exists>dst \<in> set (operations base).
           dep = Auxiliary src dst \<and> (\<exists>name. lookupSymbolIn ?D name = Some src)"
      using f src r j by auto
    have b': "\<forall>dep \<in> set ?ins. destinationRank dep \<le> k"
      using b rank by auto
    have s': "sorted (map destinationRank ?ins)"
      using s b rank by (auto simp: sorted_append)
    have o': "\<forall>dep. slotsOk depNs (?dp dep)"
      using o by (simp add: slotsOk_loadSlots)
    have e': "\<forall>dep. ?dp dep \<noteq> (\<lambda>k. None) \<longrightarrow>
           dep \<in> set ?ins \<or>
           (\<exists>op \<in> set (operations base). \<exists>i < length (getOperands ?D op). dep = DefUse op i)"
    proof (intro allI impI)
      fix x assume x: "?dp x \<noteq> (\<lambda>k. None)"
      show "x \<in> set ?ins \<or>
           (\<exists>op \<in> set (operations base). \<exists>i < length (getOperands ?D op). x = DefUse op i)"
      proof (cases "x = ?dep")
        case True
        then show ?thesis by simp
      next
        case False
        with x have "dp x \<noteq> (\<lambda>k. None)" by simp
        with e show ?thesis by auto
      qed
    qed
    have "walkInvariant depNs base k (base\<lparr>insertedDependences := ?ins, dependenceProperty := ?dp\<rparr>)"
      unfolding walkInvariant_def
      using d' f' b' s' o' e' by (intro exI [of _ ?ins] exI [of _ ?dp] conjI) simp_all
    with load show ?thesis by blast
  qed
qed

lemma loadDependenceAttrs_invariant:
  fixes base :: "(string \<times> 'v) Problem"
  assumes ops: "operations base = map OperationRef [0 ..< length (walkOperationOps (containingOp base))]"
    and k: "k < length (walkOperationOps (containingOp base))"
    and opOp: "opOp = walkOperationOps (containingOp base) ! k"
  shows "walkInvariant depNs base k prob \<Longrightarrow> list_all (loadable (containingOp base) opOp) deps \<Longrightarrow>
         \<exists>prob'. loadDependenceAttrs (map DependenceProperty depNs) (containingOp base)
                    (OperationRef k) opOp deps prob = Inr prob' \<and>
                 walkInvariant depNs base k prob'"
proof (induction deps arbitrary: prob)
  case Nil
  then show ?case by simp
next
  case (Cons d ds)
  from Cons.prems have "loadable (containingOp base) opOp d" by simp
  from loadDependence_invariant [OF Cons.prems(1) ops k opOp this] obtain prob1 where
    l: "loadDependence (map DependenceProperty depNs) (containingOp base) (OperationRef k)
          opOp prob d = Inr prob1" and i: "walkInvariant depNs base k prob1"
    by blast
  from Cons.prems have "list_all (loadable (containingOp base) opOp) ds" by simp
  from Cons.IH [OF i this] l show ?case by simp
qed

lemma loadDependencesWalk_invariant:
  fixes base :: "(string \<times> 'v) Problem"
  assumes ops: "operations base = map OperationRef [0 ..< length (walkOperationOps (containingOp base))]"
  shows "walkInvariant depNs base b prob \<Longrightarrow> sorted ks \<Longrightarrow>
         \<forall>k \<in> set ks. b \<le> k \<and> k < length (walkOperationOps (containingOp base)) \<and>
            list_all (loadable (containingOp base) (walkOperationOps (containingOp base) ! k))
              (dependenceRecords (walkOperationOps (containingOp base) ! k)) \<Longrightarrow>
         \<exists>prob' b'. loadDependencesWalk (map DependenceProperty depNs) (containingOp base)
                    (map (\<lambda>k. (OperationRef k, walkOperationOps (containingOp base) ! k)) ks) prob =
                    Inr prob' \<and>
                 walkInvariant depNs base b' prob'"
proof (induction ks arbitrary: prob b)
  case Nil
  then show ?case by auto
next
  case (Cons k ks)
  let ?opOp = "walkOperationOps (containingOp base) ! k"
  from Cons.prems have k: "b \<le> k" "k < length (walkOperationOps (containingOp base))"
    and ok: "list_all (loadable (containingOp base) ?opOp) (dependenceRecords ?opOp)"
    by simp_all
  have inv: "walkInvariant depNs base k prob"
    using Cons.prems(1) k(1) by (rule walkInvariant_mono)
  from loadDependenceAttrs_invariant [OF ops k(2) refl inv ok] obtain prob1 where
    l: "loadDependenceAttrs (map DependenceProperty depNs) (containingOp base)
          (OperationRef k) ?opOp (dependenceRecords ?opOp) prob = Inr prob1"
    and i: "walkInvariant depNs base k prob1"
    by blast
  have rest: "\<forall>k' \<in> set ks. k \<le> k' \<and> k' < length (walkOperationOps (containingOp base)) \<and>
            list_all (loadable (containingOp base) (walkOperationOps (containingOp base) ! k'))
              (dependenceRecords (walkOperationOps (containingOp base) ! k'))"
    using Cons.prems(2,3) by auto
  have "sorted ks" using Cons.prems(2) by simp
  from Cons.IH [OF i this rest] obtain prob' b' where
    w: "loadDependencesWalk (map DependenceProperty depNs) (containingOp base)
          (map (\<lambda>k. (OperationRef k, walkOperationOps (containingOp base) ! k)) ks) prob1 = Inr prob'"
    and j: "walkInvariant depNs base b' prob'"
    by blast
  show ?case
  proof (cases "dependences ?opOp")
    case None
    with l have "prob1 = prob" by (simp add: dependenceRecords_def)
    with w j None show ?thesis by auto
  next
    case (Some deps)
    with l have "loadDependenceAttrs (map DependenceProperty depNs) (containingOp base)
          (OperationRef k) ?opOp deps prob = Inr prob1"
      by (simp add: dependenceRecords_def)
    with w j Some show ?thesis by auto
  qed
qed

lemma operationOpsWithRefs_nth:
  "operationOpsWithRefs instOp =
     map (\<lambda>k. (OperationRef k, walkOperationOps instOp ! k)) [0 ..< length (walkOperationOps instOp)]"
  unfolding operationOpsWithRefs_def
  by (rule nth_equalityI) simp_all

lemma verify_defUse_bound:
  assumes "verify op = Inr ()" and "dep \<in> set (dependenceRecords op)" and "sourceRef dep = None"
  shows "unat (operandIdx dep) < length (operands op)"
proof (cases "dependences op")
  case None
  with assms(2) show ?thesis by (simp add: dependenceRecords_def)
next
  case (Some deps)
  with assms(1) have a: "verifyLoop (getNumOperands op) (- 1) deps = Inr ()"
    by (simp add: verify_def)
  have b: "- 1 \<le> sint (- 1 :: 32 word) \<or> sint (getNumOperands op) \<le> sint (- 1 :: 32 word)"
    by simp
  from Some assms(2) have c: "dep \<in> set deps" by (simp add: dependenceRecords_def)
  have "unat (operandIdx dep) < unat (getNumOperands op)"
    using a b c assms(3) by (rule verifyLoop_defUse_bound)
  then show ?thesis
    using unat_getNumOperands_le [of op] by linarith
qed

lemma verifySymbolUses_resolves:
  assumes "verifySymbolUses instOp op = Inr ()" and "dep \<in> set (dependenceRecords op)"
    and "sourceRef dep = Some ref"
  shows "resolvesToOperation instOp ref"
proof (cases "dependences op")
  case None
  with assms(2) show ?thesis by (simp add: dependenceRecords_def)
next
  case (Some deps)
  with assms(1) have "list_all (resolvesOrData instOp) deps"
    by (simp add: verifySymbolUses_def verifySymbolUsesLoop_ok)
  moreover from Some assms(2) have "dep \<in> set deps" by (simp add: dependenceRecords_def)
  ultimately have "resolvesOrData instOp dep" by (simp add: list_all_iff)
  with assms(3) show ?thesis by (simp add: resolvesOrData_def)
qed

lemma validInstance_loadable:
  assumes "validInstance instOp" and "opOp \<in> set (walkOperationOps instOp)"
  shows "list_all (loadable instOp opOp) (dependenceRecords opOp)"
proof -
  from assms have v: "verify opOp = Inr ()" "verifySymbolUses instOp opOp = Inr ()"
    by (simp_all add: validInstance_def list_all_iff)
  have "loadable instOp opOp dep" if "dep \<in> set (dependenceRecords opOp)" for dep
  proof (cases "sourceRef dep")
    case None
    with verify_defUse_bound [OF v(1) that] show ?thesis by (simp add: loadable_def)
  next
    case (Some ref)
    with verifySymbolUses_resolves [OF v(2) that] show ?thesis by (simp add: loadable_def)
  qed
  then show ?thesis by (simp add: list_all_iff)
qed

lemma loadProblem_valid:
  fixes instOp :: "(string \<times> 'v) InstanceOp"
  assumes valid: "validInstance instOp"
  shows "\<exists>prob. loadProblem (map OperationProperty opNs) (map OperatorTypeProperty oprNs)
                  (map DependenceProperty depNs) (map InstanceProperty instNs) instOp = Inr prob \<and>
               wellFormed opNs oprNs depNs instNs prob \<and>
               containingOp prob = instOp \<and>
               set (operatorTypes prob) = oprName ` set (walkOperatorTypeOps instOp) \<and>
               (\<forall>dep \<in> set (insertedDependences prob).
                  \<exists>src dst name. dep = Auxiliary src dst \<and> lookupSymbolIn instOp name = Some src)"
proof -
  let ?n = "length (walkOperationOps instOp)"
  let ?ip = "loadSlots instNs (\<lambda>k. None) (instProperties instOp)"
  let ?prob1 = "(Problem_get instOp)\<lparr>instanceProperty := ?ip\<rparr>"
  have p1: "loadInstanceProperties (map InstanceProperty instNs) (Problem_get instOp)
              (instProperties instOp) = ?prob1"
    by (simp add: loadInstanceProperties_slots Problem_get_def)
  from load_operatorTypes [of oprNs ?prob1 "walkOperatorTypeOps instOp"] obtain ots otp where
    p2: "foldl (\<lambda>prob oprOp.
              loadOperatorTypeProperties (map OperatorTypeProperty oprNs)
                (insertOperatorType prob (oprName oprOp)) (oprName oprOp) (oprProperties oprOp))
          ?prob1 (walkOperatorTypeOps instOp) =
         ?prob1\<lparr>operatorTypes := ots, operatorTypeProperty := otp\<rparr>"
    and ots: "set ots = oprName ` set (walkOperatorTypeOps instOp)" "distinct ots"
    and otp: "\<forall>opr. slotsOk oprNs (otp opr)" "\<forall>opr. opr \<notin> set ots \<longrightarrow> otp opr = (\<lambda>k. None)"
    by (auto simp: Problem_get_def slotsOk_empty)
  let ?prob2 = "?prob1\<lparr>operatorTypes := ots, operatorTypeProperty := otp\<rparr>"
  have "distinct (map fst (operationOpsWithRefs instOp))"
    "set (map fst (operationOpsWithRefs instOp)) \<inter> set (operations ?prob2) = {}"
    by (simp_all add: map_fst_operationOpsWithRefs distinct_map inj_on_def Problem_get_def)
  from load_operations [OF this, of opNs] obtain opp where
    p3: "foldl (\<lambda>prob (opRef, opOp).
              loadOperationProperties (map OperationProperty opNs)
                (insertOperation prob opRef) opRef (opProperties opOp))
          ?prob2 (operationOpsWithRefs instOp) =
         ?prob2\<lparr>operations := operations ?prob2 @ map fst (operationOpsWithRefs instOp),
                 operationProperty := opp\<rparr>"
    and opp: "\<forall>op. slotsOk opNs (opp op)"
      "\<forall>op. op \<notin> set (map fst (operationOpsWithRefs instOp)) \<longrightarrow> opp op = (\<lambda>k. None)"
    by (auto simp: Problem_get_def slotsOk_empty)
  let ?base = "\<lparr>containingOp = instOp, operatorTypes = ots,
               operations = map OperationRef [0 ..< ?n], insertedDependences = [],
               instanceProperty = ?ip, operatorTypeProperty = otp, operationProperty = opp,
               dependenceProperty = (\<lambda>dep k. None)\<rparr>"
  have base: "?prob2\<lparr>operations := operations ?prob2 @ map fst (operationOpsWithRefs instOp),
                 operationProperty := opp\<rparr> = ?base"
    by (simp add: Problem_get_def map_fst_operationOpsWithRefs)
  have ops: "operations ?base = map OperationRef [0 ..< length (walkOperationOps (containingOp ?base))]"
    by simp
  have inv0: "walkInvariant depNs ?base 0 ?base"
    unfolding walkInvariant_def
    by (intro exI [of _ "[]"] exI [of _ "\<lambda>dep k. None"]) (simp add: slotsOk_empty)
  have recs: "\<forall>k \<in> set [0 ..< ?n]. 0 \<le> k \<and> k < length (walkOperationOps (containingOp ?base)) \<and>
            list_all (loadable (containingOp ?base) (walkOperationOps (containingOp ?base) ! k))
              (dependenceRecords (walkOperationOps (containingOp ?base) ! k))"
    using validInstance_loadable [OF valid] by simp
  from loadDependencesWalk_invariant [OF ops inv0 _ recs] obtain prob b where
    w: "loadDependencesWalk (map DependenceProperty depNs) instOp
          (map (\<lambda>k. (OperationRef k, walkOperationOps instOp ! k)) [0 ..< ?n]) ?base = Inr prob"
    and inv: "walkInvariant depNs ?base b prob"
    by auto
  have load: "loadProblem (map OperationProperty opNs) (map OperatorTypeProperty oprNs)
                  (map DependenceProperty depNs) (map InstanceProperty instNs) instOp = Inr prob"
    unfolding loadProblem_def Let_def p1 p2 p3 base
    unfolding operationOpsWithRefs_nth by (rule w)
  from inv obtain ins dp where
    p: "prob = ?base\<lparr>insertedDependences := ins, dependenceProperty := dp\<rparr>"
    and d: "distinct ins"
    and f: "\<forall>dep \<in> set ins. \<exists>src \<in> set (operations ?base). \<exists>dst \<in> set (operations ?base).
           dep = Auxiliary src dst \<and> (\<exists>name. lookupSymbolIn (containingOp ?base) name = Some src)"
    and s: "sorted (map destinationRank ins)"
    and o: "\<forall>dep. slotsOk depNs (dp dep)"
    and e: "\<forall>dep. dp dep \<noteq> (\<lambda>k. None) \<longrightarrow>
           dep \<in> set ins \<or>
           (\<exists>op \<in> set (operations ?base). \<exists>i < length (getOperands (containingOp ?base) op).
              dep = DefUse op i)"
    unfolding walkInvariant_def by blast
  have bound: "list_all (\<lambda>opOp. length (operands opOp) < 2^32) (walkOperationOps instOp)"
    using valid by (simp add: validInstance_def list_all_iff)
  have support: "\<forall>dep. (\<forall>op \<in> set (operations prob). dep \<notin> set (getDependences prob op)) \<longrightarrow>
                  dependenceProperty prob dep = (\<lambda>k. None)"
  proof (intro allI impI, rule ccontr)
    fix dep
    assume none: "\<forall>op \<in> set (operations prob). dep \<notin> set (getDependences prob op)"
      and "dependenceProperty prob dep \<noteq> (\<lambda>k. None)"
    then have "dp dep \<noteq> (\<lambda>k. None)" by (simp add: p)
    with e consider (aux) "dep \<in> set ins"
      | (data) op i where "op \<in> set (operations ?base)"
          "i < length (getOperands (containingOp ?base) op)" "dep = DefUse op i"
      by blast
    then show False
    proof cases
      case aux
      with f obtain src dst where "dst \<in> set (operations ?base)" "dep = Auxiliary src dst"
        by blast
      with aux have "dst \<in> set (operations prob)" "dep \<in> set (getDependences prob dst)"
        by (simp_all add: p getDependences_def isAuxiliary_def getDestination_def)
      with none show False by blast
    next
      case data
      then have "op \<in> set (operations prob)" "dep \<in> set (getDependences prob op)"
        by (simp_all add: p getDependences_def)
      with none show False by blast
    qed
  qed
  have wf: "wellFormed opNs oprNs depNs instNs prob"
    unfolding wellFormed_def
  proof (intro conjI)
    show "operations prob = map OperationRef [0 ..< length (walkOperationOps (containingOp prob))]"
      by (simp add: p)
    show "list_all (\<lambda>opOp. length (operands opOp) < 2^32) (walkOperationOps (containingOp prob))"
      using bound by (simp add: p)
    show "distinct (operatorTypes prob)" using ots(2) by (simp add: p)
    show "distinct (insertedDependences prob)" using d by (simp add: p)
    show "\<forall>dep \<in> set (insertedDependences prob).
           \<exists>src \<in> set (operations prob). \<exists>dst \<in> set (operations prob). dep = Auxiliary src dst"
      using f unfolding p by simp blast
    show "sorted (map destinationRank (insertedDependences prob))" using s by (simp add: p)
    show "slotsOk instNs (instanceProperty prob)"
      by (simp add: p slotsOk_loadSlots slotsOk_empty)
    show "\<forall>opr. slotsOk oprNs (operatorTypeProperty prob opr)" using otp(1) by (simp add: p)
    show "\<forall>op. slotsOk opNs (operationProperty prob op)" using opp(1) by (simp add: p)
    show "\<forall>dep. slotsOk depNs (dependenceProperty prob dep)" using o by (simp add: p)
    show "\<forall>opr. opr \<notin> set (operatorTypes prob) \<longrightarrow> operatorTypeProperty prob opr = (\<lambda>k. None)"
      using otp(2) by (simp add: p)
    show "\<forall>op. op \<notin> set (operations prob) \<longrightarrow> operationProperty prob op = (\<lambda>k. None)"
      using opp(2) by (simp add: p map_fst_operationOpsWithRefs)
    show "\<forall>dep. (\<forall>op \<in> set (operations prob). dep \<notin> set (getDependences prob op)) \<longrightarrow>
                  dependenceProperty prob dep = (\<lambda>k. None)"
      by (rule support)
  qed
  have named: "\<forall>dep \<in> set (insertedDependences prob).
                  \<exists>src dst name. dep = Auxiliary src dst \<and> lookupSymbolIn instOp name = Some src"
    using f unfolding p by simp blast
  have "containingOp prob = instOp" "set (operatorTypes prob) = oprName ` set (walkOperatorTypeOps instOp)"
    using ots(1) by (simp_all add: p)
  with load wf named show ?thesis by blast
qed

subsection \<open>The names of a valid instance resolve\<close>

lemma lookupSymbolIn_operation:
  assumes "distinct (symbolNames instOp)" and "k < length (walkOperationOps instOp)"
    and "sym_name (walkOperationOps instOp ! k) = Some s"
  shows "lookupSymbolIn instOp s = Some (OperationRef k)"
  using lookupSymbol_complete [of "body instOp" k s 0 0] assms
  by (simp add: symbolNames_def walkOperationOps_def lookupSymbolIn_def)

lemma lookupSymbolIn_operatorType:
  assumes "distinct (symbolNames instOp)" and "k < length (walkOperatorTypeOps instOp)"
    and "oprName (walkOperatorTypeOps instOp ! k) = s"
  shows "lookupSymbolIn instOp s = Some (OperatorTypeRef k)"
  using lookupSymbol_complete [of "body instOp" k s 0 0] assms
  by (simp add: symbolNames_def walkOperatorTypeOps_def lookupSymbolIn_def)

lemma reproducesNames_nth:
  "reproducesNames instOp f \<Longrightarrow> k < length (walkOperationOps instOp) \<Longrightarrow>
   f (OperationRef k) = sym_name (walkOperationOps instOp ! k)"
  by (simp add: reproducesNames_def list_all_iff)

lemma namesResolve_valid:
  fixes prob :: "(string \<times> 'v) Problem"
  assumes names: "distinct (symbolNames instOp)"
    and f: "reproducesNames instOp f"
    and wf: "wellFormed opNs oprNs depNs instNs prob"
    and c: "containingOp prob = instOp"
    and ots: "set (operatorTypes prob) = oprName ` set (walkOperatorTypeOps instOp)"
    and named: "\<forall>dep \<in> set (insertedDependences prob).
                  \<exists>src dst name. dep = Auxiliary src dst \<and> lookupSymbolIn instOp name = Some src"
  shows "namesResolve f prob"
proof -
  let ?n = "length (walkOperationOps instOp)"
  have ops: "operations prob = map OperationRef [0 ..< ?n]"
    using wellFormedD(1) [OF wf] c by simp
  have a: "\<forall>src \<in> auxiliarySources prob. f src \<noteq> None"
  proof
    fix src assume "src \<in> auxiliarySources prob"
    then obtain op dst where "Auxiliary src dst \<in> set (getDependences prob op)"
      unfolding auxiliarySources_def by blast
    then have "Auxiliary src dst \<in> set (insertedDependences prob)"
      by (auto simp: getDependences_def)
    with named obtain name where l: "lookupSymbolIn instOp name = Some src" by fastforce
    from wellFormedD(5) [OF wf] \<open>Auxiliary src dst \<in> set (insertedDependences prob)\<close>
    have "src \<in> set (operations prob)" by fastforce
    with ops obtain j where j: "src = OperationRef j" by auto
    from lookupSymbolIn_sound [OF l [unfolded j]]
    have "j < ?n" "sym_name (walkOperationOps instOp ! j) = Some name" by simp_all
    with reproducesNames_nth [OF f, of j] j show "f src \<noteq> None" by simp
  qed
  have b: "\<forall>op \<in> set (operations prob). \<forall>op' \<in> set (operations prob).
         f op \<noteq> None \<and> f op = f op' \<longrightarrow> op = op'"
  proof (intro ballI impI)
    fix op op' assume o: "op \<in> set (operations prob)" "op' \<in> set (operations prob)"
      and eq: "f op \<noteq> None \<and> f op = f op'"
    from o ops obtain j k where jk: "op = OperationRef j" "j < ?n" "op' = OperationRef k" "k < ?n"
      by auto
    from eq have "f op \<noteq> None" and same: "f op = f op'" by blast+
    then obtain name where n1: "f op = Some name" by auto
    with same have n2: "f op' = Some name" by simp
    note n = n1 n2
    have sj: "sym_name (walkOperationOps instOp ! j) = Some name"
      using n(1) jk(1) reproducesNames_nth [OF f jk(2)] by simp
    have sk: "sym_name (walkOperationOps instOp ! k) = Some name"
      using n(2) jk(3) reproducesNames_nth [OF f jk(4)] by simp
    have lj: "lookupSymbolIn instOp name = Some (OperationRef j)"
      by (rule lookupSymbolIn_operation [OF names jk(2) sj])
    have lk: "lookupSymbolIn instOp name = Some (OperationRef k)"
      by (rule lookupSymbolIn_operation [OF names jk(4) sk])
    from lj lk have "j = k" by simp
    with jk show "op = op'" by simp
  qed
  have d: "\<forall>op \<in> set (operations prob). \<forall>name. f op = Some name \<longrightarrow> name \<notin> set (operatorTypes prob)"
  proof (intro ballI allI impI notI)
    fix op name assume o: "op \<in> set (operations prob)" and n: "f op = Some name"
      and m: "name \<in> set (operatorTypes prob)"
    from o ops obtain j where j: "op = OperationRef j" "j < ?n" by auto
    with n reproducesNames_nth [OF f] have "sym_name (walkOperationOps instOp ! j) = Some name"
      by simp
    with j have l: "lookupSymbolIn instOp name = Some (OperationRef j)"
      by (simp add: lookupSymbolIn_operation [OF names])
    from m ots obtain i where "i < length (walkOperatorTypeOps instOp)"
      "oprName (walkOperatorTypeOps instOp ! i) = name"
      by (auto simp: in_set_conv_nth)
    then have "lookupSymbolIn instOp name = Some (OperatorTypeRef i)"
      by (rule lookupSymbolIn_operatorType [OF names])
    with l show False by simp
  qed
  from a b d show ?thesis unfolding namesResolve_def by blast
qed

lemma indexOf_refs: "k < n \<Longrightarrow> indexOf (map OperationRef [m ..< m + n]) (OperationRef (m + k)) = Some k"
proof (induction n arbitrary: m k)
  case 0
  then show ?case by simp
next
  case (Suc n)
  have u: "[m ..< m + Suc n] = m # [Suc m ..< Suc m + n]"
    by (simp add: upt_conv_Cons)
  show ?case
  proof (cases k)
    case 0
    then show ?thesis unfolding u by simp
  next
    case (Suc k')
    with Suc.prems have "k' < n" by simp
    from Suc.IH [OF this, of "Suc m"] Suc show ?thesis unfolding u by simp
  qed
qed

lemma ValueMapper_get_defined:
  assumes "operations prob = map OperationRef [0 ..< length (walkOperationOps (containingOp prob))]"
    and "definedValue (containingOp prob) v"
  shows "ValueMapper_get prob v = v"
proof (cases v)
  case Backedge
  with assms(2) show ?thesis by (simp add: definedValue_def)
next
  case (OpResult ref r)
  with assms(2) obtain opOp where g: "getOperationOp (containingOp prob) ref = Some opOp"
    and r: "r < numResults opOp"
    by (auto simp: definedValue_def split: option.splits)
  from g obtain k where k: "ref = OperationRef k" "k < length (walkOperationOps (containingOp prob))"
    by (auto simp: getOperationOp_def split: OpRef.splits if_splits)
  from indexOf_refs [OF k(2), of 0] have "indexOf (operations prob) ref = Some k"
    by (simp add: assms(1) k(1))
  with g r k show ?thesis
    by (simp add: ValueMapper_get_def OpResult getNumResults_def)
qed

lemma saved_operations:
  fixes prob :: "(string \<times> 'v) Problem"
  assumes valid: "validInstance (containingOp prob)"
    and ops: "operations prob = map OperationRef [0 ..< length (walkOperationOps (containingOp prob))]"
    and named: "\<forall>src \<in> auxiliarySources prob. f src \<noteq> None"
    and f: "reproducesNames (containingOp prob) f"
  shows "map operands (walkOperationOps (savedInstance opKinds oprKinds depKinds instKinds prob iN pN f)) =
           map operands (walkOperationOps (containingOp prob)) \<and>
         map numResults (walkOperationOps (savedInstance opKinds oprKinds depKinds instKinds prob iN pN f)) =
           map numResults (walkOperationOps (containingOp prob)) \<and>
         map sym_name (walkOperationOps (savedInstance opKinds oprKinds depKinds instKinds prob iN pN f)) =
           map sym_name (walkOperationOps (containingOp prob))"
proof -
  let ?D = "containingOp prob"
  let ?n = "length (walkOperationOps ?D)"
  let ?G = "savedOperation opKinds depKinds prob (assignNames f prob)"
  have body: "body (savedInstance opKinds oprKinds depKinds instKinds prob iN pN f) =
     map OperatorTypeBodyOp
       (map (\<lambda>opr. \<lparr>oprName = opr, oprProperties = saveOperatorTypeProperties oprKinds prob opr\<rparr>)
          (operatorTypes prob)) @
     map OperationBodyOp (map ?G (operations prob))"
    by (simp add: savedInstance_def)
  have w: "walkOperationOps (savedInstance opKinds oprKinds depKinds instKinds prob iN pN f) =
             map ?G (operations prob)"
    by (rule walkOperationOps_saved [OF body])
  have each: "operands (?G (OperationRef k)) = operands (walkOperationOps ?D ! k) \<and>
              numResults (?G (OperationRef k)) = numResults (walkOperationOps ?D ! k) \<and>
              sym_name (?G (OperationRef k)) = sym_name (walkOperationOps ?D ! k)" if k: "k < ?n" for k
  proof -
    have mem: "OperationRef k \<in> set (operations prob)" using k ops by simp
    have "walkOperationOps ?D ! k \<in> set (walkOperationOps ?D)" using k by simp
    with valid have "list_all (definedValue ?D) (operands (walkOperationOps ?D ! k))"
      by (simp add: validInstance_def list_all_iff)
    then have "map (ValueMapper_get prob) (operands (walkOperationOps ?D ! k)) =
               operands (walkOperationOps ?D ! k)"
      using ValueMapper_get_defined [OF ops] by (simp add: list_all_iff map_idI)
    moreover have "map_of (assignNames f prob) (OperationRef k) = sym_name (walkOperationOps ?D ! k)"
      using assignNames_provided [OF named mem] reproducesNames_nth [OF f k] by simp
    ultimately show ?thesis
      using k by (simp add: savedOperation_def getOperands_def getNumResults_def getOperationOp_def)
  qed
  show ?thesis
    unfolding w ops using each
    by (intro conjI nth_equalityI) simp_all
qed

lemma getOperands_cong:
  assumes "map operands (walkOperationOps a) = map operands (walkOperationOps b)"
  shows "getOperands a op = getOperands b op"
proof (cases op)
  case (OperatorTypeRef k)
  then show ?thesis by (simp add: getOperands_def getOperationOp_def)
next
  case (OperationRef k)
  from assms have len: "length (walkOperationOps a) = length (walkOperationOps b)"
    by (rule map_eq_imp_length_eq)
  show ?thesis
  proof (cases "k < length (walkOperationOps a)")
    case True
    with len have "map operands (walkOperationOps a) ! k = operands (walkOperationOps a ! k)"
      "map operands (walkOperationOps b) ! k = operands (walkOperationOps b ! k)"
      by simp_all
    with assms have "operands (walkOperationOps a ! k) = operands (walkOperationOps b ! k)"
      by simp
    with True len show ?thesis
      by (simp add: OperationRef getOperands_def getOperationOp_def)
  next
    case False
    with len show ?thesis
      by (simp add: OperationRef getOperands_def getOperationOp_def)
  qed
qed

subsection \<open>The round trip\<close>

lemma walkOperationOps_exampleInterleaved:
  "walkOperationOps exampleInterleaved =
     [\<lparr>sym_name = Some ''a'', operands = [], numResults = 1, dependences = None,
       opProperties = Some [(''colour'', 9), (''startTime'', 0)]\<rparr>,
      \<lparr>sym_name = None, operands = [OpResult (OperationRef 0) 0], numResults = 0,
       dependences = Some [\<lparr>operandIdx = 0, sourceRef = None,
                            depProperties = Some [(''distance'', 1)]\<rparr>,
                           \<lparr>operandIdx = 1, sourceRef = Some ''a'',
                            depProperties = Some [(''distance'', 2)]\<rparr>],
       opProperties = None\<rparr>]"
  by (simp add: walkOperationOps_def exampleInterleaved_def List.map_filter_def)

lemma validInstance_exampleInterleaved: "validInstance exampleInterleaved"
proof -
  have names: "distinct (symbolNames exampleInterleaved)"
    by (simp add: symbolNames_def exampleInterleaved_def List.map_filter_def)
  have a: "lookupSymbolIn exampleInterleaved ''a'' = Some (OperationRef 0)"
    by (simp add: lookupSymbolIn_def exampleInterleaved_def)
  show ?thesis
    unfolding validInstance_def walkOperationOps_exampleInterleaved
    by (simp add: names a verify_def verifySymbolUses_def getNumOperands_def definedValue_def
          getOperationOp_def walkOperationOps_exampleInterleaved resolvesToOperation_def)
qed

text \<open>
  Claim C1, the round trip. For a valid instance and the named property kinds,
  \<open>loadProblem\<close> returns a Problem; \<open>saveProblem\<close> on that Problem, with the same kinds and
  a naming function that reproduces the names of the instance, returns an instance; and
  \<open>loadProblem\<close> on that instance returns the same Problem, now living in the new
  instance: the same operations in the same order, the same operator types, the same
  inserted dependences and the same property values at the instance, the operator types,
  the operations and the dependences (an operation is named by its rank, so the
  isomorphism is the identity). The new instance has the operations of the old one with
  the same operands, result counts and names, so every operation has the same dependences,
  data and auxiliary, in both Problems.
\<close>

theorem save_then_load_round_trip:
  fixes instOp :: "(string \<times> 'v) InstanceOp"
  assumes "validInstance instOp" and "reproducesNames instOp operationNameFn"
  shows "\<exists>prob instOp'.
           loadProblem (map OperationProperty opNs) (map OperatorTypeProperty oprNs)
             (map DependenceProperty depNs) (map InstanceProperty instNs) instOp = Inr prob \<and>
           saveProblem (map OperationProperty opNs) (map OperatorTypeProperty oprNs)
             (map DependenceProperty depNs) (map InstanceProperty instNs) prob
             instName probName operationNameFn = Inr instOp' \<and>
           loadProblem (map OperationProperty opNs) (map OperatorTypeProperty oprNs)
             (map DependenceProperty depNs) (map InstanceProperty instNs) instOp' =
             Inr (prob\<lparr>containingOp := instOp'\<rparr>) \<and>
           map operands (walkOperationOps instOp') = map operands (walkOperationOps instOp) \<and>
           map numResults (walkOperationOps instOp') = map numResults (walkOperationOps instOp) \<and>
           map sym_name (walkOperationOps instOp') = map sym_name (walkOperationOps instOp) \<and>
           (\<forall>op. getDependences (prob\<lparr>containingOp := instOp'\<rparr>) op = getDependences prob op)"
proof -
  let ?opKs = "map OperationProperty opNs :: (string \<times> 'v, (string \<times> 'v) Problem, OpRef) PropertyKind list"
  let ?oprKs = "map OperatorTypeProperty oprNs :: (string \<times> 'v, (string \<times> 'v) Problem, string) PropertyKind list"
  let ?depKs = "map DependenceProperty depNs :: (string \<times> 'v, (string \<times> 'v) Problem, Dependence) PropertyKind list"
  let ?instKs = "map InstanceProperty instNs :: (string \<times> 'v, (string \<times> 'v) Problem, unit) PropertyKind list"
  from loadProblem_valid [OF assms(1), of opNs oprNs depNs instNs] obtain prob where
    load: "loadProblem ?opKs ?oprKs ?depKs ?instKs instOp = Inr prob"
    and wf: "wellFormed opNs oprNs depNs instNs prob"
    and c: "containingOp prob = instOp"
    and ots: "set (operatorTypes prob) = oprName ` set (walkOperatorTypeOps instOp)"
    and named: "\<forall>dep \<in> set (insertedDependences prob).
                  \<exists>src dst name. dep = Auxiliary src dst \<and> lookupSymbolIn instOp name = Some src"
    by blast
  let ?saved = "savedInstance ?opKs ?oprKs ?depKs ?instKs prob instName probName operationNameFn"
  from assms(1) have names: "distinct (symbolNames instOp)" by (simp add: validInstance_def)
  have nr: "namesResolve operationNameFn prob"
    by (rule namesResolve_valid [OF names assms(2) wf c ots named])
  have save: "saveProblem ?opKs ?oprKs ?depKs ?instKs prob instName probName operationNameFn =
                Inr ?saved"
    by (rule saveProblem_total)
  have reload: "loadProblem ?opKs ?oprKs ?depKs ?instKs ?saved = Inr (prob\<lparr>containingOp := ?saved\<rparr>)"
    by (rule round_trip_saved [OF wf nr])
  have same: "map operands (walkOperationOps ?saved) = map operands (walkOperationOps instOp) \<and>
              map numResults (walkOperationOps ?saved) = map numResults (walkOperationOps instOp) \<and>
              map sym_name (walkOperationOps ?saved) = map sym_name (walkOperationOps instOp)"
    using saved_operations [of prob operationNameFn ?opKs ?oprKs ?depKs ?instKs instName probName]
      assms wellFormedD(1) [OF wf] nr
    by (simp add: c namesResolve_def)
  then have "getOperands ?saved op = getOperands instOp op" for op
    by (intro getOperands_cong) simp
  then have deps: "\<forall>op. getDependences (prob\<lparr>containingOp := ?saved\<rparr>) op = getDependences prob op"
    by (simp add: getDependences_def c)
  from load save reload same deps show ?thesis by blast
qed

theorem save_then_load_round_trip_witness:
  "validInstance exampleInterleaved \<and>
   reproducesNames exampleInterleaved exampleInterleavedNameFn \<and>
   saveProblem [OperationProperty ''startTime''] [OperatorTypeProperty ''latency'']
     [DependenceProperty ''distance''] [InstanceProperty ''II'']
     (projr (loadProblem [OperationProperty ''startTime''] [OperatorTypeProperty ''latency'']
        [DependenceProperty ''distance''] [InstanceProperty ''II''] exampleInterleaved))
     ''again'' ''Problem'' exampleInterleavedNameFn = Inr exampleInterleavedSaved \<and>
   loadProblem [OperationProperty ''startTime''] [OperatorTypeProperty ''latency'']
     [DependenceProperty ''distance''] [InstanceProperty ''II''] exampleInterleavedSaved =
   Inr ((projr (loadProblem [OperationProperty ''startTime''] [OperatorTypeProperty ''latency'']
        [DependenceProperty ''distance''] [InstanceProperty ''II''] exampleInterleaved))
          \<lparr>containingOp := exampleInterleavedSaved\<rparr>)"
proof -
  let ?load = "loadProblem [OperationProperty ''startTime''] [OperatorTypeProperty ''latency'']
        [DependenceProperty ''distance''] [InstanceProperty ''II'']"
  let ?save = "saveProblem [OperationProperty ''startTime''] [OperatorTypeProperty ''latency'']
        [DependenceProperty ''distance''] [InstanceProperty ''II'']"
  note valid = validInstance_exampleInterleaved
  have names: "reproducesNames exampleInterleaved exampleInterleavedNameFn"
    unfolding reproducesNames_def walkOperationOps_exampleInterleaved
    by (simp add: exampleInterleavedNameFn_def upt_conv_Cons)
  have saved: "?save (projr (?load exampleInterleaved)) ''again'' ''Problem'' exampleInterleavedNameFn =
                 Inr exampleInterleavedSaved"
    by code_simp
  from save_then_load_round_trip [OF valid names, of "[''startTime'']" "[''latency'']"
      "[''distance'']" "[''II'']" "''again''" "''Problem''"]
  obtain prob instOp' where
    l: "?load exampleInterleaved = Inr prob"
    and s: "?save prob ''again'' ''Problem'' exampleInterleavedNameFn = Inr instOp'"
    and r: "?load instOp' = Inr (prob\<lparr>containingOp := instOp'\<rparr>)"
    by auto
  from l have p: "prob = projr (?load exampleInterleaved)" by simp
  from s saved have i: "instOp' = exampleInterleavedSaved" unfolding p by simp
  from r have "?load exampleInterleavedSaved =
                 Inr ((projr (?load exampleInterleaved))\<lparr>containingOp := exampleInterleavedSaved\<rparr>)"
    unfolding p i .
  with valid names saved show ?thesis by (intro conjI)
qed

end
